theory Spec2Isabelle
  imports Complex_Main "HOL-Library.Char_ord" "HOL-Library.List_Lexorder" "HOL-Library.AList"
begin

section \<open>Python values used by the control plane\<close>

text \<open>
  Python strings are modelled as \<^typ>\<open>string\<close>: one \<^typ>\<open>char\<close> per code point, so the
  model covers the code points 0 to 255. An \<open>Optional[str]\<close> is a \<^typ>\<open>string option\<close>.
  Python's truth test on such a value (\<open>if x:\<close>, \<open>x or y\<close>, \<open>not x\<close>) is false for
  \<open>None\<close> and for the empty string.
\<close>

definition str_truthy :: "string option \<Rightarrow> bool" where
  "str_truthy x = (case x of None \<Rightarrow> False | Some s \<Rightarrow> s \<noteq> [])"

text \<open>\<open>x or ""\<close> for an optional string \<open>x\<close>.\<close>

definition or_empty :: "string option \<Rightarrow> string" where
  "or_empty x = (case x of None \<Rightarrow> [] | Some s \<Rightarrow> s)"

text \<open>\<open>str(n)\<close> for an integer and \<open>str(b)\<close> for a boolean, as f-strings print them.\<close>

fun nat_digits :: "nat \<Rightarrow> string" where
  "nat_digits n = (if n < 10 then [''0123456789'' ! n]
                   else nat_digits (n div 10) @ [''0123456789'' ! (n mod 10)])"

declare nat_digits.simps [simp del]

definition str_int :: "int \<Rightarrow> string" where
  "str_int i = (if i < 0 then CHR ''-'' # nat_digits (nat (- i)) else nat_digits (nat i))"

definition str_bool :: "bool \<Rightarrow> string" where
  "str_bool b = (if b then ''True'' else ''False'')"

text \<open>\<open>sep.join(xs)\<close>.\<close>

fun str_join :: "string \<Rightarrow> string list \<Rightarrow> string" where
  "str_join sep [] = []"
| "str_join sep [x] = x"
| "str_join sep (x # y # ys) = x @ sep @ str_join sep (y # ys)"

text \<open>\<open>sub in s\<close> for strings.\<close>

fun str_contains :: "string \<Rightarrow> string \<Rightarrow> bool" where
  "str_contains sub [] = (sub = [])"
| "str_contains sub (c # cs) = (take (length sub) (c # cs) = sub \<or> str_contains sub cs)"

text \<open>
  \<open>str.lower\<close> on the code points 0 to 255: the letters \<open>A\<close> to \<open>Z\<close> and the
  Latin-1 capitals (192 to 222 without the multiplication sign 215) move up by 32.
\<close>

definition py_lower_char :: "char \<Rightarrow> char" where
  "py_lower_char c =
     (let n = (of_char c :: nat)
      in if (65 \<le> n \<and> n \<le> 90) \<or> (192 \<le> n \<and> n \<le> 222 \<and> n \<noteq> 215)
         then char_of (n + 32) else c)"

definition py_lower :: "string \<Rightarrow> string" where
  "py_lower s = map py_lower_char s"

text \<open>
  The slice \<open>xs[k:]\<close>: a negative \<open>k\<close> counts from the end, and the start is clipped
  to the list.
\<close>

definition py_slice_from :: "int \<Rightarrow> 'a list \<Rightarrow> 'a list" where
  "py_slice_from k xs =
     (let n = int (length xs);
          start = (if k < 0 then max (n + k) 0 else min k n)
      in drop (nat start) xs)"

text \<open>
  JSON-shaped values (\<open>Dict\<close> payloads, and what \<open>json.loads\<close> returns). Numbers are
  kept as integers: no function of the control plane looks inside one.
\<close>

datatype json = JNull | JBool bool | JNum int | JStr string
  | JArr "json list" | JObj "(string \<times> json) list"

section \<open>Domain model (orchestrator/api/main.py)\<close>

datatype JobState = PENDING | CLAIMED | RUNNING | SUCCESS | FAILED | CANCELED

text \<open>The \<open>result\<close> dictionary of a job: \<open>exit_code\<close>, \<open>message\<close> and an optional \<open>payload\<close>.\<close>

record job_result =
  exit_code :: int
  message :: string
  payload :: "(string \<times> json) list option"

text \<open>
  The job dictionary built by \<open>enqueue_job\<close>. Timestamps are the ISO-8601 strings that
  \<open>_now().isoformat()\<close> returns; they are compared as strings, as the code compares them.
\<close>

record job =
  job_id :: string
  created_at :: string
  state :: JobState
  repo :: string
  ref :: string
  runtime :: string
  command :: "string list"
  env :: "(string \<times> string) list"
  timeout_seconds :: int
  resource_limits :: "(string \<times> int) list"
  logs :: "string list"
  result :: "job_result option"
  worker_id :: "string option"
  claimed_at :: "string option"
  started_at :: "string option"
  finished_at :: "string option"

record JobRequest =
  rq_repo :: string
  rq_ref :: string
  rq_runtime :: string
  rq_command :: "string list"
  rq_env :: "(string \<times> string) list option"
  rq_timeout_seconds :: "int option"
  rq_resource_limits :: "(string \<times> int) list option"

record ClaimRequest =
  cl_worker_id :: string
  cl_runtime_pref :: "string option"

record AppendLogRequest =
  ap_worker_id :: string
  ap_lines :: "string list"

record CompleteRequest =
  co_worker_id :: string
  co_exit_code :: int
  co_success :: bool
  co_message :: "string option"
  co_result :: "(string \<times> json) list option"

text \<open>
  \<open>_JOBS\<close>, a Python dictionary from job id to job: an association list in insertion
  order. \<open>_JOBS[k] = v\<close> is \<^const>\<open>AList.update\<close> (an existing key keeps its place, a new
  key goes last), \<open>_JOBS.get(k)\<close> is \<^const>\<open>map_of\<close>. A handler that fetches a job
  dictionary and mutates it changes the stored job: the model writes the changed job back
  under its key.
\<close>

type_synonym store = "(string \<times> job) list"

text \<open>The HTTP errors the handlers raise (403 invalid secret, 404, 403 worker mismatch), and
  a \<open>KeyError\<close> that no handler catches.\<close>

datatype error = InvalidSecret | NotFound | WorkerMismatch | UncaughtKeyError

section \<open>Worker secret (orchestrator/api/main.py)\<close>

text \<open>
  \<open>WORKER_SECRET = os.environ.get("WORKER_SECRET")\<close> is read once at import time; it is a
  parameter of the model. \<open>provided\<close> is the \<open>X-Worker-Secret\<close> header, absent or a string.
\<close>

definition validate_worker_secret :: "string option \<Rightarrow> string option \<Rightarrow> bool" where
  "validate_worker_secret WORKER_SECRET provided =
     (if \<not> str_truthy WORKER_SECRET then True
      else Some (or_empty provided) = WORKER_SECRET)"

section \<open>Claim engine (orchestrator/api/main.py)\<close>

text \<open>
  \<open>_atomically_claim_oldest\<close>. The body runs under \<open>_JOBS_LOCK\<close> and contains no
  \<open>await\<close>, so it is one atomic step on the store. The two \<open>_now()\<close> readings are
  parameters. \<open>list.sort\<close> is stable, as \<^const>\<open>sort_key\<close> is.
\<close>

definition claimed_by :: "string \<Rightarrow> string \<Rightarrow> string \<Rightarrow> job \<Rightarrow> job" where
  "claimed_by wid now_claimed now_log j =
     j\<lparr>state := CLAIMED, worker_id := Some wid, claimed_at := Some now_claimed,
       logs := logs j @ [''['' @ now_log @ ''] CLAIMED by worker '' @ wid]\<rparr>"

definition atomically_claim_oldest ::
  "string \<Rightarrow> string option \<Rightarrow> string \<Rightarrow> string \<Rightarrow> store \<Rightarrow> string option \<times> store" where
  "atomically_claim_oldest wid runtime_pref now_claimed now_log JOBS =
     (let pending = filter (\<lambda>(jid, j). state j = PENDING) JOBS;
          pending = (if str_truthy runtime_pref
                     then filter (\<lambda>(jid, j). Some (runtime j) = runtime_pref) pending
                     else pending)
      in if pending = [] then (None, JOBS)
         else
           (let (jid, j) = hd (sort_key (\<lambda>item. created_at (snd item)) pending)
            in (Some jid, AList.update jid (claimed_by wid now_claimed now_log j) JOBS)))"

text \<open>
  The two filters of \<open>_atomically_claim_oldest\<close> as one predicate: the job is \<open>PENDING\<close>
  and, when \<open>runtime_pref\<close> is a true value, its runtime equals it.
\<close>

definition eligible :: "string option \<Rightarrow> job \<Rightarrow> bool" where
  "eligible runtime_pref j =
     (state j = PENDING \<and> (str_truthy runtime_pref \<longrightarrow> Some (runtime j) = runtime_pref))"

text \<open>
  The same with the preference read as given whenever it is not \<open>None\<close>, the empty string
  included.
\<close>

definition eligible_as_given :: "string option \<Rightarrow> job \<Rightarrow> bool" where
  "eligible_as_given runtime_pref j =
     (state j = PENDING \<and> (case runtime_pref of None \<Rightarrow> True | Some r \<Rightarrow> runtime j = r))"

text \<open>
  A run of claim calls, in the order in which the lock admits them. Each caller brings its
  worker id, its runtime preference and the two clock readings of its call.
\<close>

fun claim_all ::
  "(string \<times> string option \<times> string \<times> string) list \<Rightarrow> store \<Rightarrow> string option list \<times> store" where
  "claim_all [] JOBS = ([], JOBS)"
| "claim_all ((wid, runtime_pref, now_claimed, now_log) # callers) JOBS =
     (case atomically_claim_oldest wid runtime_pref now_claimed now_log JOBS of
        (r, JOBS1) \<Rightarrow> (case claim_all callers JOBS1 of (rs, JOBS2) \<Rightarrow> (r # rs, JOBS2)))"

section \<open>Client endpoints (orchestrator/api/main.py)\<close>

text \<open>\<open>enqueue_job\<close>; \<open>new_id\<close> is the value of \<open>str(uuid.uuid4())\<close>.\<close>

definition enqueue_job :: "string \<Rightarrow> string \<Rightarrow> JobRequest \<Rightarrow> store \<Rightarrow> store" where
  "enqueue_job new_id now req JOBS =
     AList.update new_id
       \<lparr>job_id = new_id, created_at = now, state = PENDING,
        repo = rq_repo req, ref = rq_ref req, runtime = rq_runtime req,
        command = rq_command req,
        env = (case rq_env req of None \<Rightarrow> [] | Some e \<Rightarrow> e),
        timeout_seconds =
          (case rq_timeout_seconds req of None \<Rightarrow> 900 | Some t \<Rightarrow> if t = 0 then 900 else t),
        resource_limits =
          (case rq_resource_limits req of None \<Rightarrow> [(''cpu'', 1), (''memory_mb'', 1024)]
           | Some r \<Rightarrow> if r = [] then [(''cpu'', 1), (''memory_mb'', 1024)] else r),
        logs = [], result = None, worker_id = None, claimed_at = None,
        started_at = None, finished_at = None\<rparr>
       JOBS"

text \<open>\<open>get_job\<close>: the job's details with the log capped by \<open>j["logs"][-1000:]\<close>.\<close>

definition get_job :: "string \<Rightarrow> store \<Rightarrow> error + job" where
  "get_job jid JOBS =
     (case map_of JOBS jid of
        None \<Rightarrow> Inl NotFound
      | Some j \<Rightarrow> Inr (j\<lparr>logs := py_slice_from (- 1000) (logs j)\<rparr>))"

text \<open>\<open>get_job_logs\<close>: \<open>j["logs"][-tail:]\<close>; \<open>tail\<close> is the query parameter (default 200).\<close>

definition get_job_logs :: "string \<Rightarrow> int \<Rightarrow> store \<Rightarrow> error + string list" where
  "get_job_logs jid tail JOBS =
     (case map_of JOBS jid of
        None \<Rightarrow> Inl NotFound
      | Some j \<Rightarrow> Inr (py_slice_from (- tail) (logs j)))"

text \<open>
  The handlers that write return their answer together with the store they leave behind.
  A handler that raises returns the error and the store as it is at that point.
\<close>

definition cancel_job :: "string \<Rightarrow> string \<Rightarrow> string \<Rightarrow> store \<Rightarrow> error option \<times> store" where
  "cancel_job jid now_log now_finished JOBS =
     (case map_of JOBS jid of
        None \<Rightarrow> (Some NotFound, JOBS)
      | Some j \<Rightarrow>
          if state j = SUCCESS \<or> state j = FAILED \<or> state j = CANCELED then (None, JOBS)
          else (None, AList.update jid
                 (j\<lparr>state := CANCELED,
                    logs := logs j @ [''['' @ now_log @ ''] CANCELED by request''],
                    finished_at := Some now_finished\<rparr>) JOBS))"

section \<open>Worker endpoints (orchestrator/api/main.py)\<close>

text \<open>
  The second half of \<open>worker_claim\<close>, after \<open>_atomically_claim_oldest\<close> returned
  \<open>jid\<close>: the claimed job goes to \<open>RUNNING\<close>.
\<close>

definition worker_start ::
  "string \<Rightarrow> string \<Rightarrow> string \<Rightarrow> string \<Rightarrow> store \<Rightarrow> error option \<times> store" where
  "worker_start jid wid now_started now_log JOBS =
     (case map_of JOBS jid of
        None \<Rightarrow> (Some UncaughtKeyError, JOBS)
      | Some j \<Rightarrow>
          (None, AList.update jid
            (j\<lparr>state := RUNNING,
               started_at := (if \<not> str_truthy (started_at j) then Some now_started
                              else started_at j),
               logs := logs j @ [''['' @ now_log @ ''] state=RUNNING: worker '' @ wid
                                  @ '' started'']\<rparr>) JOBS))"

text \<open>
  \<open>worker_claim\<close> returns the claimed job id (the response copies eight fields of that
  job) or \<open>None\<close> when \<open>_atomically_claim_oldest\<close> returned a false value.
\<close>

definition worker_claim ::
  "string option \<Rightarrow> ClaimRequest \<Rightarrow> string option \<Rightarrow> string \<Rightarrow> string \<Rightarrow> string \<Rightarrow> string
     \<Rightarrow> store \<Rightarrow> (error + string option) \<times> store" where
  "worker_claim WORKER_SECRET req x_worker_secret now_claimed now_log now_started now_log2 JOBS =
     (if \<not> validate_worker_secret WORKER_SECRET x_worker_secret then (Inl InvalidSecret, JOBS)
      else
        (case atomically_claim_oldest (cl_worker_id req) (cl_runtime_pref req)
                now_claimed now_log JOBS of
           (claimed, JOBS1) \<Rightarrow>
             if \<not> str_truthy claimed then (Inr None, JOBS1)
             else
               (case worker_start (or_empty claimed) (cl_worker_id req)
                       now_started now_log2 JOBS1 of
                  (Some e, JOBS2) \<Rightarrow> (Inl e, JOBS2)
                | (None, JOBS2) \<Rightarrow> (Inr claimed, JOBS2))))"

definition append_job_logs ::
  "string option \<Rightarrow> string \<Rightarrow> AppendLogRequest \<Rightarrow> string option \<Rightarrow> string \<Rightarrow> store
     \<Rightarrow> error option \<times> store" where
  "append_job_logs WORKER_SECRET jid req x_worker_secret ts JOBS =
     (if \<not> validate_worker_secret WORKER_SECRET x_worker_secret then (Some InvalidSecret, JOBS)
      else
        (case map_of JOBS jid of
           None \<Rightarrow> (Some NotFound, JOBS)
         | Some j \<Rightarrow>
             if str_truthy (worker_id j) \<and> Some (ap_worker_id req) \<noteq> worker_id j
             then (Some WorkerMismatch, JOBS)
             else (None, AList.update jid
                    (j\<lparr>logs := logs j @
                         map (\<lambda>line. ''['' @ ts @ ''] '' @ ap_worker_id req @ '': '' @ line)
                           (ap_lines req)\<rparr>) JOBS)))"

text \<open>
  \<open>complete_job\<close> returns \<open>{"job_id": job_id, "state": j["state"]}\<close>.
  \<open>if req.result:\<close> is false for \<open>None\<close> and for the empty dictionary.
\<close>

definition complete_job ::
  "string option \<Rightarrow> string \<Rightarrow> CompleteRequest \<Rightarrow> string option \<Rightarrow> string \<Rightarrow> string \<Rightarrow> store
     \<Rightarrow> (error + (string \<times> JobState)) \<times> store" where
  "complete_job WORKER_SECRET jid req x_worker_secret now_finished now_log JOBS =
     (if \<not> validate_worker_secret WORKER_SECRET x_worker_secret then (Inl InvalidSecret, JOBS)
      else
        (case map_of JOBS jid of
           None \<Rightarrow> (Inl NotFound, JOBS)
         | Some j \<Rightarrow>
             if str_truthy (worker_id j) \<and> Some (co_worker_id req) \<noteq> worker_id j
             then (Inl WorkerMismatch, JOBS)
             else
               (let st = (if co_success req then SUCCESS else FAILED);
                    res = \<lparr>exit_code = co_exit_code req,
                           message = (if str_truthy (co_message req) then or_empty (co_message req)
                                      else if co_success req then ''success'' else ''failed''),
                           payload = (case co_result req of
                                        None \<Rightarrow> None
                                      | Some d \<Rightarrow> if d = [] then None else Some d)\<rparr>;
                    j' = j\<lparr>state := st, finished_at := Some now_finished, result := Some res,
                           logs := logs j @
                             [''['' @ now_log @ ''] '' @ co_worker_id req @ '': COMPLETE success=''
                                @ str_bool (co_success req) @ '' exit_code=''
                                @ str_int (co_exit_code req)]\<rparr>
                in (Inr (jid, st), AList.update jid j' JOBS))))"

section \<open>Simulated runner (orchestrator/api/main.py)\<close>

text \<open>
  \<open>_simulate_job_run\<close> is a background task started by \<open>enqueue_job\<close>; between its
  sleeps other handlers run. Its three parts are modelled one by one: the start, one
  pass of the loop over the steps, and the end. The boolean says whether the task goes on.
\<close>

definition simulate_begin :: "string \<Rightarrow> string \<Rightarrow> string \<Rightarrow> store \<Rightarrow> bool \<times> store" where
  "simulate_begin jid now_started now_log JOBS =
     (case map_of JOBS jid of
        None \<Rightarrow> (False, JOBS)
      | Some j \<Rightarrow>
          if state j = CANCELED then (False, JOBS)
          else (True, AList.update jid
                 (j\<lparr>state := RUNNING, started_at := Some now_started,
                    logs := logs j @
                      [''['' @ now_log @ ''] state=RUNNING: starting simulated run'']\<rparr>) JOBS))"

definition simulate_steps :: "job \<Rightarrow> string list" where
  "simulate_steps j =
     [''Preparing workspace'',
      ''Fetching '' @ repo j @ ''@'' @ ref j,
      ''Using runtime '' @ runtime j,
      ''Executing: '' @ str_join '' '' (command j),
      ''Collecting artifacts'',
      ''Finalizing'']"

definition simulate_step ::
  "string \<Rightarrow> string \<Rightarrow> string \<Rightarrow> store \<Rightarrow> (error + bool) \<times> store" where
  "simulate_step jid step_text now JOBS =
     (case map_of JOBS jid of
        None \<Rightarrow> (Inl UncaughtKeyError, JOBS)
      | Some j \<Rightarrow>
          if state j = CANCELED
          then (Inr False, AList.update jid
                 (j\<lparr>logs := logs j @ [''['' @ now @ ''] state=CANCELED: run aborted'']\<rparr>) JOBS)
          else (Inr True, AList.update jid
                 (j\<lparr>logs := logs j @ [''['' @ now @ ''] '' @ step_text @ '' ...'']\<rparr>) JOBS))"

definition simulate_finish ::
  "string \<Rightarrow> string \<Rightarrow> string \<Rightarrow> store \<Rightarrow> error option \<times> store" where
  "simulate_finish jid now_log now_finished JOBS =
     (case map_of JOBS jid of
        None \<Rightarrow> (Some UncaughtKeyError, JOBS)
      | Some j \<Rightarrow>
          if str_contains ''fail'' (py_lower (ref j))
          then (None, AList.update jid
                 (j\<lparr>state := FAILED,
                    logs := logs j @
                      [''['' @ now_log @ ''] ERROR: simulated failure due to ref name''],
                    finished_at := Some now_finished,
                    result := Some \<lparr>exit_code = 1, message = ''Simulated failure'',
                                     payload = None\<rparr>\<rparr>) JOBS)
          else (None, AList.update jid
                 (j\<lparr>state := SUCCESS,
                    logs := logs j @
                      [''['' @ now_log @ ''] SUCCESS: simulated run complete''],
                    finished_at := Some now_finished,
                    result := Some \<lparr>exit_code = 0, message = ''Simulated success'',
                                     payload = None\<rparr>\<rparr>) JOBS))"

section \<open>Python string functions used by the worker and the agent\<close>

abbreviation LF :: char where "LF \<equiv> CHR 0x0A"
abbreviation CR :: char where "CR \<equiv> CHR 0x0D"
abbreviation SQUOTE :: char where "SQUOTE \<equiv> CHR 0x27"
abbreviation DQUOTE :: char where "DQUOTE \<equiv> CHR 0x22"
abbreviation BACKSLASH :: char where "BACKSLASH \<equiv> CHR 0x5C"

text \<open>
  The line boundaries of \<open>str.splitlines\<close> among the code points 0 to 255, and the
  characters that \<open>str.strip\<close> removes (\<open>str.isspace\<close>) among them.
\<close>

definition is_linebreak :: "char \<Rightarrow> bool" where
  "is_linebreak c =
     (c \<in> set [CHR 0x0A, CHR 0x0B, CHR 0x0C, CHR 0x0D, CHR 0x1C, CHR 0x1D, CHR 0x1E, CHR 0x85])"

definition py_isspace :: "char \<Rightarrow> bool" where
  "py_isspace c =
     (c \<in> set [CHR 0x09, CHR 0x0A, CHR 0x0B, CHR 0x0C, CHR 0x0D, CHR 0x1C, CHR 0x1D, CHR 0x1E,
               CHR 0x1F, CHR 0x20, CHR 0x85, CHR 0xA0])"

text \<open>
  \<open>s.splitlines()\<close>: \<open>cur\<close> is the line read so far. \<open>\r\n\<close> is one boundary, and a
  boundary at the very end opens no further line.
\<close>

fun splitlines_from :: "string \<Rightarrow> string \<Rightarrow> string list" where
  "splitlines_from cur [] = (if cur = [] then [] else [cur])"
| "splitlines_from cur [c] = (if is_linebreak c then [cur] else [cur @ [c]])"
| "splitlines_from cur (c # d # cs) =
     (if c = CR \<and> d = LF then cur # splitlines_from [] cs
      else if is_linebreak c then cur # splitlines_from [] (d # cs)
      else splitlines_from (cur @ [c]) (d # cs))"

definition splitlines :: "string \<Rightarrow> string list" where
  "splitlines s = splitlines_from [] s"

definition py_strip :: "string \<Rightarrow> string" where
  "py_strip s = rev (dropWhile py_isspace (rev (dropWhile py_isspace s)))"

definition startswith :: "string \<Rightarrow> string \<Rightarrow> bool" where
  "startswith s p = (take (length p) s = p)"

text \<open>
  \<open>str.upper\<close> on the code points 0 to 255: \<open>a\<close> to \<open>z\<close> and the Latin-1 small
  letters (224 to 254 without the division sign 247) move down by 32, and the sharp s
  (223) becomes \<open>SS\<close>. The capitals of the micro sign (181) and of y with diaeresis
  (255) lie beyond 255; the model leaves these two as they are.
\<close>

definition py_upper_char :: "char \<Rightarrow> string" where
  "py_upper_char c =
     (let n = (of_char c :: nat)
      in if (97 \<le> n \<and> n \<le> 122) \<or> (224 \<le> n \<and> n \<le> 254 \<and> n \<noteq> 247)
         then [char_of (n - 32)]
         else if n = 223 then ''SS'' else [c])"

definition py_upper :: "string \<Rightarrow> string" where
  "py_upper s = concat (map py_upper_char s)"

text \<open>
  Reading a file in text mode (\<open>open(path, "r")\<close>) translates \<open>\r\n\<close> and a lone
  \<open>\r\<close> to \<open>\n\<close>.
\<close>

fun universal_newlines :: "string \<Rightarrow> string" where
  "universal_newlines [] = []"
| "universal_newlines [c] = (if c = CR then [LF] else [c])"
| "universal_newlines (c # d # cs) =
     (if c = CR \<and> d = LF then LF # universal_newlines cs
      else if c = CR then LF # universal_newlines (d # cs)
      else c # universal_newlines (d # cs))"

section \<open>shlex (Python standard library)\<close>

text \<open>
  \<open>shlex.quote\<close>: the empty string becomes two single quotes; a string of safe
  characters (\<open>[A-Za-z0-9_@%+=:,./-]\<close>) stays; any other string is put in single quotes,
  each single quote inside it replaced by \<open>'"'"'\<close>. \<open>shlex.join\<close> joins the quoted
  arguments with one space.
\<close>

definition shlex_safe :: "char \<Rightarrow> bool" where
  "shlex_safe c =
     (c \<in> set ''abcdefghijklmnopqrstuvwxyzABCDEFGHIJKLMNOPQRSTUVWXYZ0123456789_@%+=:,./-'')"

definition replace_squote :: "string \<Rightarrow> string" where
  "replace_squote s =
     concat (map (\<lambda>c. if c = SQUOTE then [SQUOTE, DQUOTE, SQUOTE, DQUOTE, SQUOTE] else [c]) s)"

definition shlex_quote :: "string \<Rightarrow> string" where
  "shlex_quote s =
     (if s = [] then [SQUOTE, SQUOTE]
      else if list_all shlex_safe s then s
      else [SQUOTE] @ replace_squote s @ [SQUOTE])"

definition shlex_join :: "string list \<Rightarrow> string" where
  "shlex_join split_command = str_join '' '' (map shlex_quote split_command)"

text \<open>
  \<open>shlex.split(s)\<close>: the lexer \<open>shlex(s, posix=True)\<close> with \<open>whitespace_split\<close> set
  and no comment characters, read to the end. The lexer's \<open>state\<close> is a character in
  the source: a space (between tokens), \<open>a\<close> (in a word), a quote character (inside
  quotes) or the backslash (after an escape, with \<open>escapedstate\<close> saying where to go
  back). \<open>shlex_tokens st quoted token s\<close> reads \<open>s\<close> from state \<open>st\<close>; \<open>quoted\<close> and
  \<open>token\<close> are the variables of \<open>read_token\<close>. A \<open>ValueError\<close> is \<open>Inl\<close> with its
  message.
\<close>

datatype lex_state = Between | InWord | InQuote char | Escaped lex_state

definition shlex_whitespace :: "char \<Rightarrow> bool" where
  "shlex_whitespace c = (c \<in> set [CHR 0x20, CHR 0x09, CHR 0x0D, CHR 0x0A])"

definition shlex_is_quote :: "char \<Rightarrow> bool" where
  "shlex_is_quote c = (c = SQUOTE \<or> c = DQUOTE)"

definition emit :: "string \<Rightarrow> string + string list \<Rightarrow> string + string list" where
  "emit token r = (case r of Inl e \<Rightarrow> Inl e | Inr ts \<Rightarrow> Inr (token # ts))"

fun shlex_tokens :: "lex_state \<Rightarrow> bool \<Rightarrow> string \<Rightarrow> string \<Rightarrow> string + string list" where
  "shlex_tokens Between quoted token [] =
     (if \<not> quoted \<and> token = [] then Inr [] else Inr [token])"
| "shlex_tokens InWord quoted token [] =
     (if \<not> quoted \<and> token = [] then Inr [] else Inr [token])"
| "shlex_tokens (InQuote q) quoted token [] = Inl ''No closing quotation''"
| "shlex_tokens (Escaped es) quoted token [] = Inl ''No escaped character''"
| "shlex_tokens Between quoted token (c # cs) =
     (if shlex_whitespace c then
        (if token \<noteq> [] \<or> quoted then emit token (shlex_tokens Between False [] cs)
         else shlex_tokens Between quoted token cs)
      else if c = BACKSLASH then shlex_tokens (Escaped InWord) quoted token cs
      else if shlex_is_quote c then shlex_tokens (InQuote c) quoted token cs
      else shlex_tokens InWord quoted [c] cs)"
| "shlex_tokens (InQuote q) quoted token (c # cs) =
     (if c = q then shlex_tokens InWord True token cs
      else if c = BACKSLASH \<and> q = DQUOTE then shlex_tokens (Escaped (InQuote q)) True token cs
      else shlex_tokens (InQuote q) True (token @ [c]) cs)"
| "shlex_tokens (Escaped es) quoted token (c # cs) =
     (case es of
        InQuote q \<Rightarrow>
          if c \<noteq> BACKSLASH \<and> c \<noteq> q
          then shlex_tokens es quoted (token @ [BACKSLASH] @ [c]) cs
          else shlex_tokens es quoted (token @ [c]) cs
      | _ \<Rightarrow> shlex_tokens es quoted (token @ [c]) cs)"
| "shlex_tokens InWord quoted token (c # cs) =
     (if shlex_whitespace c then
        (if token \<noteq> [] \<or> quoted then emit token (shlex_tokens Between False [] cs)
         else shlex_tokens Between quoted token cs)
      else if shlex_is_quote c then shlex_tokens (InQuote c) quoted token cs
      else if c = BACKSLASH then shlex_tokens (Escaped InWord) quoted token cs
      else shlex_tokens InWord quoted (token @ [c]) cs)"

definition shlex_split :: "string \<Rightarrow> string + string list" where
  "shlex_split s = shlex_tokens Between False [] s"

section \<open>Hybrid command file: the producer (orchestrator/worker/worker.py)\<close>

text \<open>
  \<open>_write_cmd_file\<close>: the text written for a job whose command is the list \<open>cmd\<close>,
  by a worker whose \<open>hybrid_secret\<close> is as given. The file is written on a POSIX
  system, where \<open>write_text\<close> stores a line feed as it is.
\<close>

definition write_cmd_file :: "string option \<Rightarrow> string list \<Rightarrow> string" where
  "write_cmd_file hybrid_secret cmd =
     (let cmd_str = shlex_join cmd;
          lines = [''#hybrid-mode'']
                  @ (if str_truthy hybrid_secret
                     then [''SECRET_TOKEN: '' @ or_empty hybrid_secret] else [])
                  @ [[]] @ [cmd_str]
      in str_join [LF] lines @ [LF])"

text \<open>
  Two conditions on what the worker writes. An argument may contain line feeds but no
  other line boundary. A secret token has no white space at either end and no line
  boundary.
\<close>

definition only_LF_breaks :: "string \<Rightarrow> bool" where
  "only_LF_breaks s = list_all (\<lambda>c. is_linebreak c \<longrightarrow> c = LF) s"

definition plain_token :: "string \<Rightarrow> bool" where
  "plain_token s =
     (s \<noteq> [] \<and> \<not> py_isspace (hd s) \<and> \<not> py_isspace (last s)
      \<and> list_all (\<lambda>c. \<not> is_linebreak c) s)"

section \<open>Hybrid agent (local-agent/agent.py)\<close>

definition MAGIC_HEADER :: string where
  "MAGIC_HEADER = ''#hybrid-mode''"

text \<open>
  The second loop of \<open>parse_cmd_file\<close>: header lines up to the first blank line. It
  returns the secret and the lines after the blank line.
\<close>

fun parse_headers :: "string option \<Rightarrow> string list \<Rightarrow> string option \<times> string list" where
  "parse_headers secret [] = (secret, [])"
| "parse_headers secret (line # rest) =
     (if py_strip line = [] then (secret, rest)
      else if CHR '':'' \<in> set line then
        (let key = takeWhile (\<lambda>c. c \<noteq> CHR '':'') line;
             val = tl (dropWhile (\<lambda>c. c \<noteq> CHR '':'') line)
         in if py_upper (py_strip key) = ''SECRET_TOKEN''
            then parse_headers (Some (py_strip val)) rest
            else parse_headers secret rest)
      else parse_headers secret rest)"

text \<open>\<open>parse_cmd_file\<close> returns \<open>(secret_token, command_text, error_message)\<close>.\<close>

definition parse_cmd_file :: "string \<Rightarrow> string option \<times> string option \<times> string option" where
  "parse_cmd_file contents =
     (let lines = splitlines contents
      in if lines = [] then (None, None, Some ''empty file'')
         else
           (let rest = dropWhile (\<lambda>l. py_strip l = []) lines
            in if rest = [] then (None, None, Some ''no content'')
               else if \<not> startswith (py_strip (hd rest)) MAGIC_HEADER
               then (None, None,
                     Some (''missing magic header '' @ [SQUOTE] @ MAGIC_HEADER @ [SQUOTE]))
               else
                 (case parse_headers None (tl rest) of
                    (secret, cmd_lines) \<Rightarrow>
                      (let cmd_text = py_strip (str_join [LF] cmd_lines)
                       in if cmd_text = []
                          then (secret, None, Some ''no command payload found'')
                          else (secret, Some cmd_text, None)))))"

text \<open>
  \<open>build_command\<close>. \<open>json.loads\<close> belongs to the standard library: it is the parameter
  \<open>json_loads\<close>, \<open>None\<close> where it raises. \<open>json_argv\<close> is the \<open>try\<close> block: a list of
  strings, or a dictionary whose \<open>command\<close> is one.
\<close>

fun json_string :: "json \<Rightarrow> string option" where
  "json_string (JStr s) = Some s"
| "json_string _ = None"

definition all_strings :: "json list \<Rightarrow> string list option" where
  "all_strings xs =
     (if list_all (\<lambda>x. json_string x \<noteq> None) xs then Some (map (\<lambda>x. the (json_string x)) xs)
      else None)"

fun json_argv :: "json option \<Rightarrow> string list option" where
  "json_argv (Some (JArr xs)) = all_strings xs"
| "json_argv (Some (JObj kvs)) =
     (case map_of kvs ''command'' of Some (JArr xs) \<Rightarrow> all_strings xs | _ \<Rightarrow> None)"
| "json_argv _ = None"

definition build_command ::
  "(string \<Rightarrow> json option) \<Rightarrow> string \<Rightarrow> string list option \<times> string option" where
  "build_command json_loads cmd_text =
     (case json_argv (json_loads cmd_text) of
        Some argv \<Rightarrow> (Some argv, None)
      | None \<Rightarrow>
          (case shlex_split cmd_text of
             Inl e \<Rightarrow> (None, Some (''failed to parse command: '' @ e))
           | Inr argv \<Rightarrow>
               if argv \<noteq> [] then (Some argv, None)
               else (None, Some ''could not parse command payload'')))"

text \<open>
  What the library promises of \<open>json.loads\<close> and the round trip relies on: a text decodes
  to a list or a dictionary only if its first character after JSON whitespace is an
  opening bracket or brace.
\<close>

definition json_whitespace :: "char \<Rightarrow> bool" where
  "json_whitespace c = (c \<in> set [CHR 0x20, CHR 0x09, CHR 0x0A, CHR 0x0D])"

definition opens_container :: "string \<Rightarrow> bool" where
  "opens_container t =
     (case dropWhile json_whitespace t of
        [] \<Rightarrow> False
      | c # cs \<Rightarrow> c = CHR ''['' \<or> c = CHR ''{'')"

definition json_loads_sound :: "(string \<Rightarrow> json option) \<Rightarrow> bool" where
  "json_loads_sound json_loads =
     (\<forall>t. case json_loads t of
             Some (JArr xs) \<Rightarrow> opens_container t
           | Some (JObj kvs) \<Rightarrow> opens_container t
           | _ \<Rightarrow> True)"

text \<open>
  The command file as the specification describes it: the magic marker line, an optional
  secret-token line, a blank separator, then the command payload \<open>body\<close>. \<open>token\<close> is
  the token the file carries, \<open>None\<close> when it has no secret-token line.
\<close>

definition spec_command_file :: "string option \<Rightarrow> string \<Rightarrow> string" where
  "spec_command_file token body =
     str_join [LF]
       ([''#hybrid-mode'']
        @ (case token of None \<Rightarrow> [] | Some t \<Rightarrow> [''SECRET_TOKEN: '' @ t])
        @ [[]] @ [body])"

text \<open>
  \<open>LocalAgent.process_single\<close>. The file system and the child process are parameters:
  \<open>claimed\<close> says whether the rename succeeded, \<open>contents\<close> is the text read (\<open>None\<close>
  when reading fails), \<open>run_job\<close> runs an argument list and returns exit code, stdout
  and stderr, \<open>now\<close> is \<open>now_iso()\<close>. The answer is \<open>None\<close> when nothing is published,
  else the published result and the argument list handed to \<open>run_job\<close>, if any.
\<close>

record agent_result =
  exitCode :: int
  stdout :: string
  stderr :: string
  timestamp :: string

definition process_single ::
  "string option \<Rightarrow> bool \<Rightarrow> (string \<Rightarrow> json option) \<Rightarrow> (string list \<Rightarrow> int \<times> string \<times> string)
     \<Rightarrow> bool \<Rightarrow> string option \<Rightarrow> string \<Rightarrow> (agent_result \<times> string list option) option" where
  "process_single secret dry_run json_loads run_job claimed contents now =
     (if \<not> claimed then None
      else
        (case contents of
           None \<Rightarrow>
             Some (\<lparr>exitCode = - 1, stdout = [], stderr = ''failed to read command file'',
                    timestamp = now\<rparr>, None)
         | Some text \<Rightarrow>
             (case parse_cmd_file text of
                (secret_in_file, cmd_text, parse_err) \<Rightarrow>
                  if str_truthy parse_err
                  then Some (\<lparr>exitCode = - 1, stdout = [],
                               stderr = ''parse-error: '' @ or_empty parse_err,
                               timestamp = now\<rparr>, None)
                  else if secret \<noteq> None
                          \<and> (\<not> str_truthy secret_in_file \<or> secret_in_file \<noteq> secret)
                  then Some (\<lparr>exitCode = 1, stdout = [],
                               stderr = ''SECRET_TOKEN missing or invalid'',
                               timestamp = now\<rparr>, None)
                  else
                    (case build_command json_loads (or_empty cmd_text) of
                       (argv, build_err) \<Rightarrow>
                         if str_truthy build_err \<or> argv = None \<or> argv = Some []
                         then Some (\<lparr>exitCode = - 1, stdout = [],
                                      stderr = ''command-parse-error: ''
                                        @ (case build_err of None \<Rightarrow> ''None'' | Some e \<Rightarrow> e),
                                      timestamp = now\<rparr>, None)
                         else if dry_run
                         then Some (\<lparr>exitCode = 0,
                                      stdout = ''dry-run: '' @ str_join '' '' (the argv),
                                      stderr = [], timestamp = now\<rparr>, None)
                         else
                           (case run_job (the argv) of
                              (returncode, out, err) \<Rightarrow>
                                Some (\<lparr>exitCode = returncode, stdout = out, stderr = err,
                                        timestamp = now\<rparr>, Some (the argv)))))))"

section \<open>Waiting for the hybrid result (orchestrator/worker/worker.py)\<close>

text \<open>
  Floats. A clock reading (\<open>time.time()\<close>) is a finite float, modelled as the real it
  denotes. The deadline is a float sum, which may be an infinity. The two operations that
  round, the conversion of an \<open>int\<close> and the addition, are the parameters \<open>fl_of_int\<close>
  and \<open>fl_add\<close>; nothing is assumed of them. What is fixed is when the conversion raises
  \<open>OverflowError\<close>: when the float nearest to the \<open>int\<close> would be \<open>2\<^sup>1\<^sup>0\<^sup>2\<^sup>4\<close> or more in
  magnitude, that is from \<open>2\<^sup>1\<^sup>0\<^sup>2\<^sup>4 - 2\<^sup>9\<^sup>7\<^sup>0\<close> on.
\<close>

datatype pyfloat = NegInf | Finite real | PosInf

record float_ops =
  fl_of_int :: "int \<Rightarrow> pyfloat"
  fl_add :: "pyfloat \<Rightarrow> pyfloat \<Rightarrow> pyfloat"

definition float_overflows :: "int \<Rightarrow> bool" where
  "float_overflows t = (2 ^ 1024 - 2 ^ 970 \<le> abs t)"

text \<open>The comparison \<open>time.time() < deadline\<close>.\<close>

fun clock_before :: "real \<Rightarrow> pyfloat \<Rightarrow> bool" where
  "clock_before c NegInf = False"
| "clock_before c (Finite d) = (c < d)"
| "clock_before c PosInf = True"

text \<open>
  \<open>_poll_for_result\<close> reads the world once per pass of its loop: whether the stop event
  is set, the clock (in seconds), and the result file: absent, or present with either the
  decoded JSON or the message of the exception that reading or decoding raised. Pass \<open>n\<close>
  of the loop sees \<open>stop_set n\<close>, \<open>time_at n\<close> and \<open>result_file n\<close>.
\<close>

record poll_env =
  stop_set :: "nat \<Rightarrow> bool"
  time_at :: "nat \<Rightarrow> real"
  result_file :: "nat \<Rightarrow> (string + json) option"


definition read_result :: "string + json \<Rightarrow> json" where
  "read_result f =
     (case f of
        Inr data \<Rightarrow> data
      | Inl e \<Rightarrow> JObj [(''error'', JStr (''failed to read/parse result file: '' @ e))])"

text \<open>
  The loop. It may run forever if the clock never reaches the deadline, so its value is an
  option: \<open>None\<close> for a loop that does not return. Python's \<open>None\<close> is \<^const>\<open>JNull\<close>: the
  value the loop returns when it gives up is the value \<open>json.loads\<close> gives for a result
  file that holds \<open>null\<close>.
\<close>

partial_function (option) poll_loop :: "poll_env \<Rightarrow> pyfloat \<Rightarrow> nat \<Rightarrow> json option" where
  "poll_loop world deadline n =
     (if stop_set world n \<or> \<not> clock_before (time_at world n) deadline then Some JNull
      else if result_file world n \<noteq> None then Some (read_result (the (result_file world n)))
      else poll_loop world deadline (Suc n))"

text \<open>
  \<open>int(job.get("timeout_seconds") or 900)\<close>, and the deadline
  \<open>time.time() + timeout_seconds + 5\<close>: the clock reading \<open>start\<close> plus the converted
  timeout, plus five.
\<close>

definition effective_timeout :: "int option \<Rightarrow> int" where
  "effective_timeout field = (case field of None \<Rightarrow> 900 | Some t \<Rightarrow> if t = 0 then 900 else t)"

definition float_deadline :: "float_ops \<Rightarrow> real \<Rightarrow> int \<Rightarrow> pyfloat" where
  "float_deadline fl start secs =
     fl_add fl (fl_add fl (Finite start) (fl_of_int fl secs)) (Finite 5)"

definition poll_deadline :: "float_ops \<Rightarrow> real \<Rightarrow> int option \<Rightarrow> string + pyfloat" where
  "poll_deadline fl start field =
     (let secs = effective_timeout field
      in if float_overflows secs
         then Inl ''OverflowError: int too large to convert to float''
         else Inr (float_deadline fl start secs))"

text \<open>
  \<open>_poll_for_result\<close>: \<open>None\<close> when it does not return, \<open>Inl\<close> the exception it raises,
  \<open>Inr\<close> the value it returns.
\<close>

definition poll_for_result ::
  "float_ops \<Rightarrow> poll_env \<Rightarrow> real \<Rightarrow> int option \<Rightarrow> (string + json) option" where
  "poll_for_result fl world start field =
     (case poll_deadline fl start field of
        Inl e \<Rightarrow> Some (Inl e)
      | Inr deadline \<Rightarrow> map_option Inr (poll_loop world deadline 0))"

text \<open>
  The part of \<open>run_command_and_stream\<close> that waits: the list of calls it makes to the
  control plane, and the exception that leaves it, if any (the call of
  \<open>_poll_for_result\<close> stands outside every \<open>try\<close>). What it does with a result that
  arrived is the parameter \<open>on_result\<close>.
\<close>

datatype api_call =
  AppendLogs string "string list"
| CompleteJob string int bool string "json option"

definition hybrid_wait ::
  "float_ops \<Rightarrow> string \<Rightarrow> string \<Rightarrow> poll_env \<Rightarrow> real \<Rightarrow> int option
     \<Rightarrow> (json \<Rightarrow> api_call list \<times> string option) \<Rightarrow> (api_call list \<times> string option) option" where
  "hybrid_wait fl jid hybrid_results world start field on_result =
     (let waiting = AppendLogs jid [''[hybrid] waiting for result in '' @ hybrid_results]
      in case poll_for_result fl world start field of
           None \<Rightarrow> None
         | Some (Inl e) \<Rightarrow> Some ([waiting], Some e)
         | Some (Inr res) \<Rightarrow>
             if res = JNull
             then Some ([waiting,
                         AppendLogs jid [''[hybrid] timed out waiting for result''],
                         CompleteJob jid 124 False ''[hybrid] timed out waiting for result''
                           None],
                        None)
             else (case on_result res of (calls, raised) \<Rightarrow> Some (waiting # calls, raised)))"

section \<open>The store over time\<close>

text \<open>
  One step of the control plane: any handler call or any part of a simulated run, with any
  arguments. A call that is rejected leaves the store as it is. \<open>enqueue_job\<close> draws a
  fresh identifier (a new UUID); the rule asks that it is not a key of the store.
  \<open>worker_claim\<close> is the \<open>claim\<close> step followed by the \<open>start\<close> step.
\<close>

inductive step :: "store \<Rightarrow> store \<Rightarrow> bool" where
  enqueue: "new_id \<notin> fst ` set JOBS \<Longrightarrow> step JOBS (enqueue_job new_id now req JOBS)"
| claim: "step JOBS (snd (atomically_claim_oldest wid runtime_pref now_claimed now_log JOBS))"
| start: "step JOBS (snd (worker_start jid wid now_started now_log JOBS))"
| append: "step JOBS (snd (append_job_logs WORKER_SECRET jid areq x_worker_secret ts JOBS))"
| complete:
    "step JOBS (snd (complete_job WORKER_SECRET jid creq x_worker_secret now_finished now_log JOBS))"
| cancel: "step JOBS (snd (cancel_job jid now_log now_finished JOBS))"
| sim_begin: "step JOBS (snd (simulate_begin jid now_started now_log JOBS))"
| sim_step: "step JOBS (snd (simulate_step jid step_text now JOBS))"
| sim_finish: "step JOBS (snd (simulate_finish jid now_log now_finished JOBS))"

text \<open>The stores that the control plane can reach from the empty store.\<close>

definition reachable :: "store \<Rightarrow> bool" where
  "reachable JOBS = step\<^sup>*\<^sup>* [] JOBS"

text \<open>
  Two notions for reasoning about steps. The invariant: job ids are distinct, and a job
  that is \<open>PENDING\<close> has no worker. The relation: every job that has a worker in the
  first store is still there in the second, with the same worker.
\<close>

definition store_inv :: "store \<Rightarrow> bool" where
  "store_inv JOBS =
     (distinct (map fst JOBS)
      \<and> (\<forall>k j. map_of JOBS k = Some j \<longrightarrow> state j = PENDING \<longrightarrow> worker_id j = None))"

definition keeps_workers :: "store \<Rightarrow> store \<Rightarrow> bool" where
  "keeps_workers s s' =
     (\<forall>k j w. map_of s k = Some j \<longrightarrow> worker_id j = Some w
        \<longrightarrow> (\<exists>j'. map_of s' k = Some j' \<and> worker_id j' = Some w))"

section \<open>Example data\<close>

text \<open>A job request with the given runtime, used where a theorem is run on a concrete store.\<close>

definition example_request :: "string \<Rightarrow> JobRequest" where
  "example_request rt =
     \<lparr>rq_repo = ''owner/repo'', rq_ref = ''main'', rq_runtime = rt,
      rq_command = [''/bin/echo'', ''hi''], rq_env = None, rq_timeout_seconds = None,
      rq_resource_limits = None\<rparr>"

text \<open>
  A decoder for the JSON texts that are non-empty arrays of strings without escapes. It
  stands in for \<open>json.loads\<close> where a theorem is run on a concrete file.
\<close>

fun json_plain_string :: "string \<Rightarrow> (string \<times> string) option" where
  "json_plain_string [] = None"
| "json_plain_string (c # cs) =
     (if c = DQUOTE then Some ([], cs)
      else if c = BACKSLASH then None
      else (case json_plain_string cs of None \<Rightarrow> None | Some (s, r) \<Rightarrow> Some (c # s, r)))"

fun json_string_items :: "nat \<Rightarrow> string \<Rightarrow> json list option" where
  "json_string_items 0 t = None"
| "json_string_items (Suc n) t =
     (case dropWhile json_whitespace t of
        [] \<Rightarrow> None
      | c # cs \<Rightarrow>
          if c \<noteq> DQUOTE then None
          else
            (case json_plain_string cs of
               None \<Rightarrow> None
             | Some (s, r) \<Rightarrow>
                 (case dropWhile json_whitespace r of
                    [] \<Rightarrow> None
                  | d # r' \<Rightarrow>
                      if d = CHR '','' then map_option ((#) (JStr s)) (json_string_items n r')
                      else if d = CHR '']'' \<and> dropWhile json_whitespace r' = []
                      then Some [JStr s] else None)))"

definition example_json_loads :: "string \<Rightarrow> json option" where
  "example_json_loads t =
     (case dropWhile json_whitespace t of
        [] \<Rightarrow> None
      | c # cs \<Rightarrow>
          if c = CHR ''['' then map_option JArr (json_string_items (length cs) cs) else None)"

text \<open>
  Float arithmetic where it is exact (small integers), used where a theorem is run on a
  concrete wait.
\<close>

fun exact_add :: "pyfloat \<Rightarrow> pyfloat \<Rightarrow> pyfloat" where
  "exact_add (Finite a) (Finite b) = Finite (a + b)"
| "exact_add (Finite a) y = y"
| "exact_add x y = x"

definition exact_floats :: float_ops where
  "exact_floats = \<lparr>fl_of_int = (\<lambda>t. Finite (real_of_int t)), fl_add = exact_add\<rparr>"

text \<open>The payload and the command file of the specification's round-trip example.\<close>

definition example_payload :: string where
  "example_payload =
     [CHR ''['', DQUOTE] @ ''/bin/echo'' @ [DQUOTE, CHR '','', DQUOTE] @ ''hi''
     @ [DQUOTE, CHR '']'']"

definition example_cmd_file :: string where
  "example_cmd_file =
     ''#hybrid-mode'' @ [LF] @ ''SECRET_TOKEN: abc'' @ [LF, LF]
     @ [CHR ''['', DQUOTE] @ ''/bin/echo'' @ [DQUOTE, CHR '','', DQUOTE] @ ''hi''
     @ [DQUOTE, CHR '']'']"

section \<open>Properties of the claim engine\<close>

lemma hd_insort_key:
  "hd (insort_key f x ys) = (if ys = [] \<or> f x \<le> f (hd ys) then x else hd ys)"
  by (cases ys) auto

lemma sort_key_Nil_iff: "sort_key f xs = [] \<longleftrightarrow> xs = []"
  by (metis length_sort list.size(3) length_0_conv)

lemma hd_sort_key_split:
  "xs \<noteq> [] \<Longrightarrow>
   \<exists>pre post. xs = pre @ hd (sort_key f xs) # post
     \<and> (\<forall>x\<in>set pre. f (hd (sort_key f xs)) < f x)
     \<and> (\<forall>x\<in>set post. f (hd (sort_key f xs)) \<le> f x)"
proof (induction xs)
  case Nil
  then show ?case by simp
next
  case (Cons a xs)
  show ?case
  proof (cases "xs = []")
    case True
    then show ?thesis by (intro exI [of _ "[]"]) simp
  next
    case False
    let ?m = "hd (sort_key f xs)"
    from Cons.IH [OF False] obtain pre post where
      xs: "xs = pre @ ?m # post" and
      pre: "\<forall>x\<in>set pre. f ?m < f x" and
      post: "\<forall>x\<in>set post. f ?m \<le> f x" by blast
    have nonempty: "sort_key f xs \<noteq> []" using False by (simp add: sort_key_Nil_iff)
    have hd_eq: "hd (sort_key f (a # xs)) = (if f a \<le> f ?m then a else ?m)"
      using nonempty by (simp add: hd_insort_key)
    show ?thesis
    proof (cases "f a \<le> f ?m")
      case True
      have "a # xs = [] @ a # xs" by simp
      moreover have "\<forall>x\<in>set xs. f a \<le> f x"
      proof
        fix x assume "x \<in> set xs"
        then have "x \<in> set pre \<or> x = ?m \<or> x \<in> set post" using xs
          by (metis Un_iff set_ConsD set_append)
        then show "f a \<le> f x" using True pre post by (auto intro: order_trans less_imp_le)
      qed
      ultimately show ?thesis using True hd_eq by (intro exI [of _ "[]"] exI [of _ xs]) simp
    next
      case nle: False
      then have lt: "f ?m < f a" by simp
      have "a # xs = (a # pre) @ ?m # post" using xs by simp
      then show ?thesis using nle hd_eq pre post lt
        by (intro exI [of _ "a # pre"] exI [of _ post]) simp
    qed
  qed
qed

lemma filter_split:
  "filter P ys = pre' @ x # post' \<Longrightarrow>
   \<exists>pre post. ys = pre @ x # post \<and> filter P pre = pre' \<and> filter P post = post' \<and> P x"
proof (induction pre' arbitrary: ys)
  case Nil
  then obtain us vs where "ys = us @ x # vs" "\<forall>u\<in>set us. \<not> P u" "P x" "post' = filter P vs"
    by (auto simp: filter_eq_Cons_iff)
  then show ?case by (intro exI [of _ us] exI [of _ vs]) simp
next
  case (Cons a pre')
  then obtain us vs where ys: "ys = us @ a # vs" and us: "\<forall>u\<in>set us. \<not> P u" and a: "P a"
    and rest: "pre' @ x # post' = filter P vs"
    by (auto simp: filter_eq_Cons_iff)
  from Cons.IH [OF rest [symmetric]] obtain pre post where
    "vs = pre @ x # post" "filter P pre = pre'" "filter P post = post'" "P x" by blast
  then show ?case using ys us a
    by (intro exI [of _ "us @ a # pre"] exI [of _ post]) simp
qed

lemma first_min_split:
  assumes "filter P ys \<noteq> []"
  shows "\<exists>pre post. ys = pre @ hd (sort_key f (filter P ys)) # post
     \<and> P (hd (sort_key f (filter P ys)))
     \<and> (\<forall>x\<in>set pre. P x \<longrightarrow> f (hd (sort_key f (filter P ys))) < f x)
     \<and> (\<forall>x\<in>set post. P x \<longrightarrow> f (hd (sort_key f (filter P ys))) \<le> f x)"
proof -
  let ?m = "hd (sort_key f (filter P ys))"
  from hd_sort_key_split [OF assms(1), of f] obtain pre' post' where
    split: "filter P ys = pre' @ ?m # post'" and
    pre': "\<forall>x\<in>set pre'. f ?m < f x" and post': "\<forall>x\<in>set post'. f ?m \<le> f x"
    by blast
  from filter_split [OF split] obtain pre post where
    ys: "ys = pre @ ?m # post" and fp: "filter P pre = pre'" and fq: "filter P post = post'"
    and Pm: "P ?m" by blast
  have "\<forall>x\<in>set pre. P x \<longrightarrow> f ?m < f x" using pre' fp by auto
  moreover have "\<forall>x\<in>set post. P x \<longrightarrow> f ?m \<le> f x" using post' fq by auto
  ultimately show ?thesis using ys Pm by blast
qed

lemma update_split:
  "distinct (map fst (pre @ (k, v) # post)) \<Longrightarrow>
   AList.update k v' (pre @ (k, v) # post) = pre @ (k, v') # post"
  by (induction pre) auto

lemma claim_filters:
  "(if str_truthy pref
    then filter (\<lambda>(jid, j). Some (runtime j) = pref) (filter (\<lambda>(jid, j). state j = PENDING) JOBS)
    else filter (\<lambda>(jid, j). state j = PENDING) JOBS)
   = filter (\<lambda>item. eligible pref (snd item)) JOBS"
  by (auto simp: eligible_def intro!: filter_cong)

lemma claim_oldest_unfold:
  "atomically_claim_oldest wid pref t1 t2 JOBS =
     (let pending = filter (\<lambda>item. eligible pref (snd item)) JOBS
      in if pending = [] then (None, JOBS)
         else (Some (fst (hd (sort_key (\<lambda>item. created_at (snd item)) pending))),
               AList.update (fst (hd (sort_key (\<lambda>item. created_at (snd item)) pending)))
                 (claimed_by wid t1 t2 (snd (hd (sort_key (\<lambda>item. created_at (snd item)) pending))))
                 JOBS))"
  unfolding atomically_claim_oldest_def claim_filters Let_def
  by (simp add: case_prod_beta)

lemma claim_none:
  "\<forall>item\<in>set JOBS. \<not> eligible pref (snd item) \<Longrightarrow>
   atomically_claim_oldest wid pref t1 t2 JOBS = (None, JOBS)"
  by (simp add: claim_oldest_unfold filter_empty_conv Let_def)

lemma claim_some:
  assumes d: "distinct (map fst JOBS)" and ex: "\<exists>item\<in>set JOBS. eligible pref (snd item)"
  shows "\<exists>pre jid j post. JOBS = pre @ (jid, j) # post \<and> eligible pref j
      \<and> (\<forall>item\<in>set pre. eligible pref (snd item) \<longrightarrow> created_at j < created_at (snd item))
      \<and> (\<forall>item\<in>set post. eligible pref (snd item) \<longrightarrow> created_at j \<le> created_at (snd item))
      \<and> atomically_claim_oldest wid pref t1 t2 JOBS
          = (Some jid, pre @ (jid, claimed_by wid t1 t2 j) # post)"
proof -
  let ?P = "\<lambda>item. eligible pref (snd item)"
  let ?f = "\<lambda>item. created_at (snd item)"
  let ?m = "hd (sort_key ?f (filter ?P JOBS))"
  have ne: "filter ?P JOBS \<noteq> []" using ex by (simp add: filter_empty_conv)
  from first_min_split [OF ne, of ?f] obtain pre post where
    JOBS: "JOBS = pre @ ?m # post" and Pm: "?P ?m"
    and pre: "\<forall>x\<in>set pre. ?P x \<longrightarrow> ?f ?m < ?f x"
    and post: "\<forall>x\<in>set post. ?P x \<longrightarrow> ?f ?m \<le> ?f x" by blast
  have d': "distinct (map fst (pre @ (fst ?m, snd ?m) # post))" using d JOBS by simp
  have upd: "AList.update (fst ?m) (claimed_by wid t1 t2 (snd ?m)) JOBS
             = pre @ (fst ?m, claimed_by wid t1 t2 (snd ?m)) # post"
    using update_split [OF d'] JOBS by simp
  have "atomically_claim_oldest wid pref t1 t2 JOBS
        = (Some (fst ?m), pre @ (fst ?m, claimed_by wid t1 t2 (snd ?m)) # post)"
    using ne upd by (simp add: claim_oldest_unfold Let_def)
  moreover have "JOBS = pre @ (fst ?m, snd ?m) # post" using JOBS by simp
  ultimately show ?thesis using Pm pre post
    by (intro exI [of _ pre] exI [of _ "fst ?m"] exI [of _ "snd ?m"] exI [of _ post]) simp
qed

lemma eligible_pending: "eligible pref j \<Longrightarrow> state j = PENDING"
  by (simp add: eligible_def)

lemma state_claimed_by [simp]: "state (claimed_by wid t1 t2 j) = CLAIMED"
  by (simp add: claimed_by_def)

lemma worker_id_claimed_by [simp]: "worker_id (claimed_by wid t1 t2 j) = Some wid"
  by (simp add: claimed_by_def)

lemma claim_all_length: "claim_all callers JOBS = (rs, JOBS') \<Longrightarrow> length rs = length callers"
  by (induction callers JOBS arbitrary: rs JOBS' rule: claim_all.induct)
     (auto split: prod.splits)

lemma claim_all_no_pending:
  "filter (\<lambda>item. state (snd item) = PENDING) JOBS = [] \<Longrightarrow>
   claim_all callers JOBS = (replicate (length callers) None, JOBS)"
proof (induction callers)
  case Nil
  then show ?case by simp
next
  case (Cons c callers)
  obtain wid pref t1 t2 where c: "c = (wid, pref, t1, t2)" by (cases c) auto
  have "\<forall>item\<in>set JOBS. \<not> eligible pref (snd item)"
    using Cons.prems by (auto simp: filter_empty_conv dest: eligible_pending)
  then have "atomically_claim_oldest wid pref t1 t2 JOBS = (None, JOBS)" by (rule claim_none)
  then show ?case using Cons c by simp
qed

lemma claim_result:
  assumes d: "distinct (map fst JOBS)"
    and c: "atomically_claim_oldest wid pref t1 t2 JOBS = (r, JOBS')"
  shows "map fst JOBS' = map fst JOBS
    \<and> (case r of
          None \<Rightarrow> JOBS' = JOBS
        | Some jid \<Rightarrow>
            jid \<in> fst ` {item \<in> set JOBS. state (snd item) = PENDING}
            \<and> fst ` {item \<in> set JOBS'. state (snd item) = PENDING}
                = fst ` {item \<in> set JOBS. state (snd item) = PENDING} - {jid})"
proof (cases "\<exists>item\<in>set JOBS. eligible pref (snd item)")
  case False
  then have "atomically_claim_oldest wid pref t1 t2 JOBS = (None, JOBS)"
    using claim_none [of JOBS pref] by simp
  then show ?thesis using c by simp
next
  case True
  from claim_some [OF d True, of wid t1 t2] obtain pre jid j post where
    J: "JOBS = pre @ (jid, j) # post" and el: "eligible pref j"
    and res: "atomically_claim_oldest wid pref t1 t2 JOBS
              = (Some jid, pre @ (jid, claimed_by wid t1 t2 j) # post)" by blast
  have r: "r = Some jid" and J': "JOBS' = pre @ (jid, claimed_by wid t1 t2 j) # post"
    using c res by simp_all
  have notin: "jid \<notin> fst ` set pre" "jid \<notin> fst ` set post" using d J by auto
  have "jid \<in> fst ` {item \<in> set JOBS. state (snd item) = PENDING}"
    using J el by (force dest: eligible_pending)
  moreover have "fst ` {item \<in> set JOBS'. state (snd item) = PENDING}
                = fst ` {item \<in> set JOBS. state (snd item) = PENDING} - {jid}"
    using notin unfolding J J' by (auto simp: image_iff dest: eligible_pending) 
  ultimately show ?thesis using r J J' by simp
qed

lemma claim_all_distinct_aux:
  "distinct (map fst JOBS) \<Longrightarrow> claim_all callers JOBS = (rs, JOBS') \<Longrightarrow>
   distinct (filter (\<lambda>r. r \<noteq> None) rs)
   \<and> (\<forall>jid. Some jid \<in> set rs \<longrightarrow> jid \<in> fst ` {item \<in> set JOBS. state (snd item) = PENDING})"
proof (induction callers arbitrary: JOBS rs JOBS')
  case Nil
  then show ?case by simp
next
  case (Cons c callers)
  obtain wid pref t1 t2 where c: "c = (wid, pref, t1, t2)" by (cases c) auto
  obtain r JOBS1 where step: "atomically_claim_oldest wid pref t1 t2 JOBS = (r, JOBS1)"
    by (cases "atomically_claim_oldest wid pref t1 t2 JOBS") auto
  obtain rs1 where rest: "claim_all callers JOBS1 = (rs1, JOBS')" and rs: "rs = r # rs1"
    using Cons.prems(2) c step by (auto split: prod.splits)
  from claim_result [OF Cons.prems(1) step] have
    keys: "map fst JOBS1 = map fst JOBS" and
    cr: "case r of None \<Rightarrow> JOBS1 = JOBS
         | Some jid \<Rightarrow> jid \<in> fst ` {item \<in> set JOBS. state (snd item) = PENDING}
            \<and> fst ` {item \<in> set JOBS1. state (snd item) = PENDING}
                = fst ` {item \<in> set JOBS. state (snd item) = PENDING} - {jid}"
    by simp_all
  have d1: "distinct (map fst JOBS1)" using keys Cons.prems(1) by simp
  from Cons.IH [OF d1 rest] have
    ih1: "distinct (filter (\<lambda>r. r \<noteq> None) rs1)" and
    ih2: "\<forall>jid. Some jid \<in> set rs1 \<longrightarrow> jid \<in> fst ` {item \<in> set JOBS1. state (snd item) = PENDING}"
    by simp_all
  show ?case
  proof (cases r)
    case None
    then show ?thesis using cr ih1 ih2 rs by auto
  next
    case (Some jid)
    then have in0: "jid \<in> fst ` {item \<in> set JOBS. state (snd item) = PENDING}"
      and eq: "fst ` {item \<in> set JOBS1. state (snd item) = PENDING}
                = fst ` {item \<in> set JOBS. state (snd item) = PENDING} - {jid}"
      using cr by simp_all
    have "Some jid \<notin> set rs1" using ih2 eq by blast
    then show ?thesis using Some ih1 ih2 eq in0 rs by auto
  qed
qed

lemma claim_all_single_pending:
  assumes d: "distinct (map fst JOBS)"
    and one: "filter (\<lambda>item. state (snd item) = PENDING) JOBS = [(jid0, j0)]"
    and ex: "\<exists>c\<in>set callers. eligible (fst (snd c)) j0"
    and run: "claim_all callers JOBS = (rs, JOBS')"
  shows "filter (\<lambda>r. r \<noteq> None) rs = [Some jid0]"
  using ex run
proof (induction callers arbitrary: rs)
  case Nil
  then show ?case by simp
next
  case (Cons c callers)
  obtain wid pref t1 t2 where c: "c = (wid, pref, t1, t2)" by (cases c) auto
  have mem: "\<And>item. item \<in> set JOBS \<Longrightarrow> state (snd item) = PENDING \<Longrightarrow> item = (jid0, j0)"
  proof -
    fix item assume "item \<in> set JOBS" "state (snd item) = PENDING"
    then have "item \<in> set (filter (\<lambda>item. state (snd item) = PENDING) JOBS)" by simp
    then show "item = (jid0, j0)" using one by simp
  qed
  have j0: "(jid0, j0) \<in> set JOBS"
  proof -
    have "(jid0, j0) \<in> set (filter (\<lambda>item. state (snd item) = PENDING) JOBS)" using one by simp
    then show ?thesis by simp
  qed
  show ?case
  proof (cases "eligible pref j0")
    case True
    then have ex1: "\<exists>item\<in>set JOBS. eligible pref (snd item)" using j0 by force
    from claim_some [OF d ex1, of wid t1 t2] obtain pre jid j post where
      J: "JOBS = pre @ (jid, j) # post" and el: "eligible pref j"
      and res: "atomically_claim_oldest wid pref t1 t2 JOBS
                = (Some jid, pre @ (jid, claimed_by wid t1 t2 j) # post)" by blast
    have "(jid, j) = (jid0, j0)" using mem [of "(jid, j)"] J el by (auto dest: eligible_pending)
    then have jid: "jid = jid0" by simp
    have "filter (\<lambda>item. state (snd item) = PENDING) pre = []
          \<and> filter (\<lambda>item. state (snd item) = PENDING) post = []"
      using one el unfolding J by (auto simp: append_eq_Cons_conv dest: eligible_pending)
    then have nop: "filter (\<lambda>item. state (snd item) = PENDING)
                      (pre @ (jid, claimed_by wid t1 t2 j) # post) = []" by simp
    from claim_all_no_pending [OF nop, of callers]
    have "rs = Some jid0 # replicate (length callers) None"
      using Cons.prems(2) c res jid by simp
    then show ?thesis by simp
  next
    case False
    then have "\<forall>item\<in>set JOBS. \<not> eligible pref (snd item)"
      using mem by (metis eligible_pending prod.collapse snd_conv)
    then have none: "atomically_claim_oldest wid pref t1 t2 JOBS = (None, JOBS)"
      by (rule claim_none)
    then obtain rs1 where rest: "claim_all callers JOBS = (rs1, JOBS')" and rs: "rs = None # rs1"
      using Cons.prems(2) c by (auto split: prod.splits)
    have "\<exists>c\<in>set callers. eligible (fst (snd c)) j0" using Cons.prems(1) False c by simp
    from Cons.IH [OF this rest] show ?thesis using rs by simp
  qed
qed

section \<open>Properties of shlex: splitting a joined command\<close>

lemma unsafe_chars:
  "\<not> shlex_safe (CHR 0x20)" "\<not> shlex_safe (CHR 0x09)" "\<not> shlex_safe CR" "\<not> shlex_safe LF"
  "\<not> shlex_safe SQUOTE" "\<not> shlex_safe DQUOTE" "\<not> shlex_safe BACKSLASH"
  "\<not> shlex_safe (CHR ''['')" "\<not> shlex_safe (CHR ''{'')"
  by (simp_all add: shlex_safe_def)

lemma shlex_safe_plain:
  "shlex_safe c \<Longrightarrow> \<not> shlex_whitespace c \<and> \<not> shlex_is_quote c \<and> c \<noteq> BACKSLASH"
  using unsafe_chars by (auto simp: shlex_whitespace_def shlex_is_quote_def)

lemma shlex_word_run:
  "list_all shlex_safe w \<Longrightarrow>
   shlex_tokens InWord quoted token (w @ rest) = shlex_tokens InWord quoted (token @ w) rest"
proof (induction w arbitrary: token)
  case Nil
  then show ?case by simp
next
  case (Cons c w)
  then have "shlex_safe c" and w: "list_all shlex_safe w" by simp_all
  then have "\<not> shlex_whitespace c" "\<not> shlex_is_quote c" "c \<noteq> BACKSLASH"
    using shlex_safe_plain by blast+
  then show ?case using Cons.IH [OF w, of "token @ [c]"] by simp
qed

lemma shlex_quoted_run:
  "shlex_tokens (InQuote SQUOTE) quoted token (replace_squote s @ SQUOTE # rest)
   = shlex_tokens InWord True (token @ s) rest"
proof (induction s arbitrary: quoted token)
  case Nil
  then show ?case by (simp add: replace_squote_def)
next
  case (Cons c s)
  show ?case
  proof (cases "c = SQUOTE")
    case True
    have "replace_squote (c # s) = [SQUOTE, DQUOTE, SQUOTE, DQUOTE, SQUOTE] @ replace_squote s"
      using True by (simp add: replace_squote_def)
    then show ?thesis using True Cons.IH [of True "token @ [SQUOTE]"]
      by (simp add: shlex_is_quote_def shlex_whitespace_def)
  next
    case False
    have "replace_squote (c # s) = c # replace_squote s"
      using False by (simp add: replace_squote_def)
    then show ?thesis using False Cons.IH [of True "token @ [c]"] by simp
  qed
qed

lemma quote_empty:
  "shlex_tokens Between False [] (shlex_quote [] @ rest) = shlex_tokens InWord True [] rest"
  by (simp add: shlex_quote_def shlex_is_quote_def shlex_whitespace_def)

lemma quote_safe:
  assumes "list_all shlex_safe (c # w)"
  shows "shlex_tokens Between False [] (shlex_quote (c # w) @ rest)
         = shlex_tokens InWord False (c # w) rest"
proof -
  have c: "shlex_safe c" and w: "list_all shlex_safe w" using assms by simp_all
  have plain: "\<not> shlex_whitespace c" "\<not> shlex_is_quote c" "c \<noteq> BACKSLASH"
    using shlex_safe_plain [OF c] by blast+
  have q: "shlex_quote (c # w) = c # w" using assms by (simp add: shlex_quote_def)
  have "shlex_tokens Between False [] ((c # w) @ rest)
          = shlex_tokens InWord False [c] (w @ rest)"
    using plain by simp
  also have "\<dots> = shlex_tokens InWord False (c # w) rest"
    using shlex_word_run [OF w, of False "[c]" rest] by simp
  finally show ?thesis using q by simp
qed

lemma quote_unsafe:
  assumes "x \<noteq> []" "\<not> list_all shlex_safe x"
  shows "shlex_tokens Between False [] (shlex_quote x @ rest)
         = shlex_tokens InWord True x rest"
proof -
  have q: "shlex_quote x @ rest = SQUOTE # (replace_squote x @ SQUOTE # rest)"
    using assms by (simp add: shlex_quote_def)
  have "shlex_tokens Between False [] (SQUOTE # (replace_squote x @ SQUOTE # rest))
          = shlex_tokens (InQuote SQUOTE) False [] (replace_squote x @ SQUOTE # rest)"
    by (simp add: shlex_is_quote_def shlex_whitespace_def)
  also have "\<dots> = shlex_tokens InWord True x rest"
    using shlex_quoted_run [of False "[]" x rest] by simp
  finally show ?thesis using q by simp
qed

lemma shlex_quote_token:
  "\<exists>quoted. (x \<noteq> [] \<or> quoted)
     \<and> shlex_tokens Between False [] (shlex_quote x @ rest) = shlex_tokens InWord quoted x rest"
proof (cases "x = []")
  case True
  have "shlex_tokens Between False [] (shlex_quote x @ rest) = shlex_tokens InWord True x rest"
    unfolding True by (rule quote_empty)
  then show ?thesis by (intro exI [of _ True]) simp
next
  case False
  then obtain c w where x: "x = c # w" by (cases x) simp_all
  show ?thesis
  proof (cases "list_all shlex_safe x")
    case True
    have "shlex_tokens Between False [] (shlex_quote x @ rest) = shlex_tokens InWord False x rest"
      using True unfolding x by (rule quote_safe)
    then show ?thesis using False by (intro exI [of _ False]) simp
  next
    case unsafe: False
    have "shlex_tokens Between False [] (shlex_quote x @ rest) = shlex_tokens InWord True x rest"
      using False unsafe by (rule quote_unsafe)
    then show ?thesis by (intro exI [of _ True]) simp
  qed
qed

lemma shlex_word_end:
  "x \<noteq> [] \<or> quoted \<Longrightarrow> shlex_tokens InWord quoted x [] = Inr [x]"
  by auto

lemma shlex_word_space:
  "x \<noteq> [] \<or> quoted \<Longrightarrow>
   shlex_tokens InWord quoted x (CHR '' '' # after) = emit x (shlex_tokens Between False [] after)"
  by (auto simp: shlex_whitespace_def)

lemma shlex_tokens_join: "shlex_tokens Between False [] (shlex_join xs) = Inr xs"
proof (induction xs rule: induct_list012)
  case 1
  then show ?case by (simp add: shlex_join_def)
next
  case (2 x)
  obtain quoted where q: "x \<noteq> [] \<or> quoted"
    and eq: "shlex_tokens Between False [] (shlex_quote x @ []) = shlex_tokens InWord quoted x []"
    using shlex_quote_token [of x "[]"] by (elim exE conjE)
  have "shlex_join [x] = shlex_quote x @ []" by (simp add: shlex_join_def)
  then show ?case using eq shlex_word_end [OF q] by simp
next
  case (3 x y zs)
  let ?more = "shlex_join (y # zs)"
  obtain quoted where q: "x \<noteq> [] \<or> quoted"
    and eq: "shlex_tokens Between False [] (shlex_quote x @ CHR '' '' # ?more)
             = shlex_tokens InWord quoted x (CHR '' '' # ?more)"
    using shlex_quote_token [of x "CHR '' '' # ?more"] by (elim exE conjE)
  have j: "shlex_join (x # y # zs) = shlex_quote x @ CHR '' '' # ?more"
    by (simp add: shlex_join_def)
  have "shlex_tokens Between False [] (shlex_join (x # y # zs))
        = emit x (shlex_tokens Between False [] ?more)"
    unfolding j eq by (rule shlex_word_space [OF q])
  also have "\<dots> = Inr (x # y # zs)" using 3(2) by (simp add: emit_def)
  finally show ?case .
qed

lemma shlex_split_join: "shlex_split (shlex_join xs) = Inr xs"
  by (simp add: shlex_split_def shlex_tokens_join)

section \<open>Properties of the command file\<close>

lemma str_join_Cons: "xs \<noteq> [] \<Longrightarrow> str_join sep (x # xs) = x @ sep @ str_join sep xs"
  by (cases xs) simp_all

lemma linebreak_LF [simp]: "is_linebreak LF"
  by (simp add: is_linebreak_def)

lemma linebreak_CR [simp]: "is_linebreak CR"
  by (simp add: is_linebreak_def)

lemma splitlines_from_step:
  "\<not> is_linebreak c \<Longrightarrow> t \<noteq> [] \<Longrightarrow>
   splitlines_from cur (c # t) = splitlines_from (cur @ [c]) t"
  by (cases t) auto

lemma splitlines_from_LF:
  "splitlines_from cur (LF # t) = cur # splitlines_from [] t"
  by (cases t) simp_all

lemma splitlines_line:
  "\<forall>c\<in>set l. \<not> is_linebreak c \<Longrightarrow>
   splitlines_from cur (l @ LF # rest) = (cur @ l) # splitlines_from [] rest"
proof (induction l arbitrary: cur)
  case Nil
  then show ?case by (simp add: splitlines_from_LF)
next
  case (Cons c l)
  then have c: "\<not> is_linebreak c" and l: "\<forall>c\<in>set l. \<not> is_linebreak c" by simp_all
  have "splitlines_from cur (c # (l @ LF # rest)) = splitlines_from (cur @ [c]) (l @ LF # rest)"
    using c by (rule splitlines_from_step) simp
  then show ?case using Cons.IH [OF l, of "cur @ [c]"] by simp
qed

lemma splitlines_payload:
  "\<forall>c\<in>set s. is_linebreak c \<longrightarrow> c = LF \<Longrightarrow>
   splitlines_from cur (s @ [LF]) \<noteq> []
   \<and> str_join [LF] (splitlines_from cur (s @ [LF])) = cur @ s"
proof (induction s arbitrary: cur)
  case Nil
  then show ?case by simp
next
  case (Cons c s)
  then have s: "\<forall>c\<in>set s. is_linebreak c \<longrightarrow> c = LF" by simp
  show ?case
  proof (cases "is_linebreak c")
    case True
    then have c: "c = LF" using Cons.prems by simp
    have ne: "splitlines_from [] (s @ [LF]) \<noteq> []"
      and j: "str_join [LF] (splitlines_from [] (s @ [LF])) = s"
      using Cons.IH [OF s, of "[]"] by simp_all
    have "splitlines_from cur ((c # s) @ [LF]) = cur # splitlines_from [] (s @ [LF])"
      using c by (simp add: splitlines_from_LF)
    then show ?thesis using ne j c by (simp add: str_join_Cons)
  next
    case False
    have "splitlines_from cur (c # (s @ [LF])) = splitlines_from (cur @ [c]) (s @ [LF])"
      using False by (rule splitlines_from_step) simp
    then show ?thesis using Cons.IH [OF s, of "cur @ [c]"] by simp
  qed
qed

lemma dropWhile_hd_id: "xs \<noteq> [] \<Longrightarrow> \<not> P (hd xs) \<Longrightarrow> dropWhile P xs = xs"
  by (cases xs) simp_all

lemma py_strip_id:
  assumes "s \<noteq> []" "\<not> py_isspace (hd s)" "\<not> py_isspace (last s)"
  shows "py_strip s = s"
proof -
  have a: "dropWhile py_isspace s = s" using assms(1,2) by (cases s) simp_all
  have "rev s \<noteq> []" "hd (rev s) = last s" using assms(1) by (simp_all add: hd_rev)
  then have "dropWhile py_isspace (rev s) = rev s" using assms(3) by (simp add: dropWhile_hd_id)
  then show ?thesis using a by (simp add: py_strip_def)
qed

lemma py_strip_space_id:
  assumes "s \<noteq> []" "\<not> py_isspace (hd s)" "\<not> py_isspace (last s)"
  shows "py_strip (CHR '' '' # s) = s"
proof -
  have a: "dropWhile py_isspace (CHR '' '' # s) = s"
    using assms(1,2) by (cases s) (simp_all add: py_isspace_def)
  have "rev s \<noteq> []" "hd (rev s) = last s" using assms(1) by (simp_all add: hd_rev)
  then have "dropWhile py_isspace (rev s) = rev s" using assms(3) by (simp add: dropWhile_hd_id)
  then show ?thesis using a by (simp add: py_strip_def)
qed

lemma universal_newlines_id: "CR \<notin> set t \<Longrightarrow> universal_newlines t = t"
  by (induction t rule: universal_newlines.induct) auto

lemma space_chars_unsafe:
  "py_isspace c \<Longrightarrow> \<not> shlex_safe c"
  "json_whitespace c \<Longrightarrow> \<not> shlex_safe c"
  "is_linebreak c \<Longrightarrow> \<not> shlex_safe c"
proof -
  have "\<not> shlex_safe (CHR 0x09)" "\<not> shlex_safe (CHR 0x0A)" "\<not> shlex_safe (CHR 0x0B)"
    "\<not> shlex_safe (CHR 0x0C)" "\<not> shlex_safe (CHR 0x0D)" "\<not> shlex_safe (CHR 0x1C)"
    "\<not> shlex_safe (CHR 0x1D)" "\<not> shlex_safe (CHR 0x1E)" "\<not> shlex_safe (CHR 0x1F)"
    "\<not> shlex_safe (CHR 0x20)" "\<not> shlex_safe (CHR 0x85)" "\<not> shlex_safe (CHR 0xA0)"
    by (simp_all add: shlex_safe_def)
  then show "py_isspace c \<Longrightarrow> \<not> shlex_safe c" "json_whitespace c \<Longrightarrow> \<not> shlex_safe c"
    "is_linebreak c \<Longrightarrow> \<not> shlex_safe c"
    by (auto simp: py_isspace_def json_whitespace_def is_linebreak_def)
qed

lemma quote_marks_plain:
  "\<not> py_isspace SQUOTE" "\<not> json_whitespace SQUOTE" "\<not> is_linebreak SQUOTE"
  "\<not> is_linebreak DQUOTE" "\<not> is_linebreak (CHR '' '')"
  by (simp_all add: py_isspace_def json_whitespace_def is_linebreak_def)

lemma shlex_quote_nonempty: "shlex_quote x \<noteq> []"
  by (simp add: shlex_quote_def)

lemma shlex_quote_hd:
  "hd (shlex_quote x) = SQUOTE \<or> shlex_safe (hd (shlex_quote x))"
  by (cases x) (simp_all add: shlex_quote_def)

lemma shlex_quote_last:
  "last (shlex_quote x) = SQUOTE \<or> shlex_safe (last (shlex_quote x))"
proof (cases "x = []")
  case True
  then show ?thesis by (simp add: shlex_quote_def)
next
  case False
  show ?thesis
  proof (cases "list_all shlex_safe x")
    case True
    then have "shlex_safe (last x)" using False by (simp add: list_all_iff)
    then show ?thesis using True False by (simp add: shlex_quote_def)
  next
    case unsafe: False
    then show ?thesis using False by (simp add: shlex_quote_def)
  qed
qed

lemma replace_squote_chars:
  "c \<in> set (replace_squote x) \<Longrightarrow> c \<in> set x \<or> c = SQUOTE \<or> c = DQUOTE"
  by (auto simp: replace_squote_def split: if_splits)

lemma shlex_quote_chars:
  "c \<in> set (shlex_quote x) \<Longrightarrow> c \<in> set x \<or> c = SQUOTE \<or> c = DQUOTE"
  using replace_squote_chars [of c x] by (auto simp: shlex_quote_def split: if_splits)

lemma str_join_chars:
  "c \<in> set (str_join sep xs) \<Longrightarrow> (\<exists>x\<in>set xs. c \<in> set x) \<or> c \<in> set sep"
  by (induction sep xs rule: str_join.induct) auto

lemma shlex_join_chars:
  assumes "c \<in> set (shlex_join xs)"
  shows "(\<exists>x\<in>set xs. c \<in> set x) \<or> c = SQUOTE \<or> c = DQUOTE \<or> c = CHR '' ''"
proof -
  from str_join_chars [OF assms [unfolded shlex_join_def]]
  have "(\<exists>q\<in>set (map shlex_quote xs). c \<in> set q) \<or> c = CHR '' ''" by simp
  then show ?thesis using shlex_quote_chars by auto
qed

lemma str_join_hd:
  "xs \<noteq> [] \<Longrightarrow> hd xs \<noteq> [] \<Longrightarrow> str_join sep xs \<noteq> [] \<and> hd (str_join sep xs) = hd (hd xs)"
  by (induction sep xs rule: str_join.induct) auto

lemma str_join_last:
  "xs \<noteq> [] \<Longrightarrow> last xs \<noteq> [] \<Longrightarrow> last (str_join sep xs) = last (last xs)"
proof (induction sep xs rule: str_join.induct)
  case (3 sep x y ys)
  have ne: "last (y # ys) \<noteq> []" using 3(3) by simp
  have "str_join sep (y # ys) \<noteq> []"
  proof
    assume e: "str_join sep (y # ys) = []"
    have "last (str_join sep (y # ys)) = last (last (y # ys))" using 3(1) ne by simp
    moreover have "set (last (y # ys)) \<subseteq> set (str_join sep (y # ys))"
      by (induction sep "y # ys" arbitrary: y ys rule: str_join.induct) auto
    ultimately show False using e ne by simp
  qed
  then show ?case using 3 by simp
qed simp_all

lemma shlex_join_shape:
  assumes "cmd \<noteq> []"
  shows "shlex_join cmd \<noteq> []"
    and "hd (shlex_join cmd) = SQUOTE \<or> shlex_safe (hd (shlex_join cmd))"
    and "last (shlex_join cmd) = SQUOTE \<or> shlex_safe (last (shlex_join cmd))"
proof -
  let ?qs = "map shlex_quote cmd"
  have qs: "?qs \<noteq> []" "hd ?qs = shlex_quote (hd cmd)" "last ?qs = shlex_quote (last cmd)"
    using assms by (simp_all add: hd_map last_map)
  have h: "str_join '' '' ?qs \<noteq> [] \<and> hd (str_join '' '' ?qs) = hd (hd ?qs)"
    using qs shlex_quote_nonempty by (intro str_join_hd) simp_all
  have l: "last (str_join '' '' ?qs) = last (last ?qs)"
    using qs shlex_quote_nonempty by (intro str_join_last) simp_all
  show "shlex_join cmd \<noteq> []" using h by (simp add: shlex_join_def)
  show "hd (shlex_join cmd) = SQUOTE \<or> shlex_safe (hd (shlex_join cmd))"
    using h qs shlex_quote_hd [of "hd cmd"] by (simp add: shlex_join_def)
  show "last (shlex_join cmd) = SQUOTE \<or> shlex_safe (last (shlex_join cmd))"
    using l qs shlex_quote_last [of "last cmd"] by (simp add: shlex_join_def)
qed

lemma magic_line:
  "py_strip ''#hybrid-mode'' = ''#hybrid-mode''"
  "\<forall>c\<in>set ''#hybrid-mode''. \<not> is_linebreak c"
  "startswith ''#hybrid-mode'' MAGIC_HEADER"
  by (simp_all add: py_strip_def py_isspace_def is_linebreak_def startswith_def MAGIC_HEADER_def)

lemma secret_key:
  "py_upper (py_strip ''SECRET_TOKEN'') = ''SECRET_TOKEN''"
  "\<forall>c\<in>set ''SECRET_TOKEN: ''. \<not> is_linebreak c"
  by (simp_all add: py_strip_def py_isspace_def py_upper_def py_upper_char_def is_linebreak_def)

lemma payload_lines:
  assumes "cmd \<noteq> []" "list_all only_LF_breaks cmd"
  shows "splitlines_from [] (shlex_join cmd @ [LF]) \<noteq> []"
    and "py_strip (str_join [LF] (splitlines_from [] (shlex_join cmd @ [LF]))) = shlex_join cmd"
proof -
  have br: "\<forall>c\<in>set (shlex_join cmd). is_linebreak c \<longrightarrow> c = LF"
  proof
    fix c assume "c \<in> set (shlex_join cmd)"
    then have "(\<exists>x\<in>set cmd. c \<in> set x) \<or> c = SQUOTE \<or> c = DQUOTE \<or> c = CHR '' ''"
      by (rule shlex_join_chars)
    then show "is_linebreak c \<longrightarrow> c = LF"
      using assms(2) quote_marks_plain by (auto simp: only_LF_breaks_def list_all_iff)
  qed
  from splitlines_payload [OF br, of "[]"]
  have ne: "splitlines_from [] (shlex_join cmd @ [LF]) \<noteq> []"
    and j: "str_join [LF] (splitlines_from [] (shlex_join cmd @ [LF])) = shlex_join cmd"
    by simp_all
  show "splitlines_from [] (shlex_join cmd @ [LF]) \<noteq> []" by (rule ne)
  have "\<not> py_isspace (hd (shlex_join cmd))" "\<not> py_isspace (last (shlex_join cmd))"
    using shlex_join_shape(2,3) [OF assms(1)] space_chars_unsafe(1) quote_marks_plain(1)
    by metis+
  then have "py_strip (shlex_join cmd) = shlex_join cmd"
    using shlex_join_shape(1) [OF assms(1)] by (intro py_strip_id)
  then show "py_strip (str_join [LF] (splitlines_from [] (shlex_join cmd @ [LF]))) = shlex_join cmd"
    using j by simp
qed

lemma parse_without_secret:
  assumes "cmd \<noteq> []" "list_all only_LF_breaks cmd" "\<not> str_truthy hybrid_secret"
  shows "parse_cmd_file (write_cmd_file hybrid_secret cmd) = (None, Some (shlex_join cmd), None)"
proof -
  let ?L = "splitlines_from [] (shlex_join cmd @ [LF])"
  have written: "write_cmd_file hybrid_secret cmd
              = ''#hybrid-mode'' @ LF # ([] @ LF # (shlex_join cmd @ [LF]))"
    using assms(3) by (simp add: write_cmd_file_def)
  have "splitlines (write_cmd_file hybrid_secret cmd)
        = ([] @ ''#hybrid-mode'') # splitlines_from [] ([] @ LF # (shlex_join cmd @ [LF]))"
    unfolding written splitlines_def by (rule splitlines_line [OF magic_line(2)])
  also have "splitlines_from [] ([] @ LF # (shlex_join cmd @ [LF])) = ([] @ []) # ?L"
    by (rule splitlines_line) simp
  finally have lines: "splitlines (write_cmd_file hybrid_secret cmd) = ''#hybrid-mode'' # [] # ?L"
    by simp
  have ne: "shlex_join cmd \<noteq> []" using shlex_join_shape(1) [OF assms(1)] .
  show ?thesis
    unfolding parse_cmd_file_def lines
    using payload_lines(2) [OF assms(1,2)] ne magic_line(1,3)
    by (simp add: Let_def py_strip_def [of "[]"])
qed

lemma parse_with_secret:
  assumes "cmd \<noteq> []" "list_all only_LF_breaks cmd" "plain_token s"
  shows "parse_cmd_file (write_cmd_file (Some s) cmd) = (Some s, Some (shlex_join cmd), None)"
proof -
  let ?L = "splitlines_from [] (shlex_join cmd @ [LF])"
  let ?line = "''SECRET_TOKEN: '' @ s"
  have s: "s \<noteq> []" "\<not> py_isspace (hd s)" "\<not> py_isspace (last s)"
    "\<forall>c\<in>set s. \<not> is_linebreak c"
    using assms(3) by (simp_all add: plain_token_def list_all_iff)
  have written: "write_cmd_file (Some s) cmd
              = ''#hybrid-mode'' @ LF # (?line @ LF # ([] @ LF # (shlex_join cmd @ [LF])))"
    using s(1) by (simp add: write_cmd_file_def str_truthy_def or_empty_def)
  have nb: "\<forall>c\<in>set ?line. \<not> is_linebreak c" using s(4) secret_key(2) by auto
  have "splitlines (write_cmd_file (Some s) cmd)
        = ([] @ ''#hybrid-mode'')
          # splitlines_from [] (?line @ LF # ([] @ LF # (shlex_join cmd @ [LF])))"
    unfolding written splitlines_def by (rule splitlines_line [OF magic_line(2)])
  also have "splitlines_from [] (?line @ LF # ([] @ LF # (shlex_join cmd @ [LF])))
             = ([] @ ?line) # splitlines_from [] ([] @ LF # (shlex_join cmd @ [LF]))"
    by (rule splitlines_line [OF nb])
  also have "splitlines_from [] ([] @ LF # (shlex_join cmd @ [LF])) = ([] @ []) # ?L"
    by (rule splitlines_line) simp
  finally have lines:
    "splitlines (write_cmd_file (Some s) cmd) = ''#hybrid-mode'' # ?line # [] # ?L"
    by simp
  have line_strip: "py_strip ?line \<noteq> []"
  proof -
    have "py_strip ?line = ?line"
      using s(1,3) by (intro py_strip_id) (simp_all add: py_isspace_def)
    then show ?thesis by simp
  qed
  have key: "takeWhile (\<lambda>c. c \<noteq> CHR '':'') ?line = ''SECRET_TOKEN''"
    and val: "tl (dropWhile (\<lambda>c. c \<noteq> CHR '':'') ?line) = CHR '' '' # s"
    and colon: "CHR '':'' \<in> set ?line"
    by simp_all
  have hdr: "parse_headers None (?line # [] # ?L) = (Some s, ?L)"
    using line_strip key val colon secret_key(1) py_strip_space_id [OF s(1,2,3)]
    by (simp add: Let_def py_strip_def [of "[]"])
  have ne: "shlex_join cmd \<noteq> []" using shlex_join_shape(1) [OF assms(1)] .
  show ?thesis
    unfolding parse_cmd_file_def lines
    using payload_lines(2) [OF assms(1,2)] ne magic_line(1,3) hdr
    by (simp add: Let_def)
qed

lemma example_json_loads_sound: "json_loads_sound example_json_loads"
  by (auto simp: json_loads_sound_def example_json_loads_def opens_container_def
      split: list.splits option.splits json.splits)

lemma example_decode:
  "example_json_loads ([CHR ''['', DQUOTE] @ ''/bin/echo'' @ [DQUOTE, CHR '','', DQUOTE] @ ''hi''
      @ [DQUOTE, CHR '']''])
   = Some (JArr [JStr ''/bin/echo'', JStr ''hi''])"
  by (simp add: example_json_loads_def json_whitespace_def)

lemma build_command_join:
  assumes "cmd \<noteq> []" "json_loads_sound json_loads"
  shows "build_command json_loads (shlex_join cmd) = (Some cmd, None)"
proof -
  let ?t = "shlex_join cmd"
  have ne: "?t \<noteq> []" and h: "hd ?t = SQUOTE \<or> shlex_safe (hd ?t)"
    using shlex_join_shape [OF assms(1)] by simp_all
  have nws: "\<not> json_whitespace (hd ?t)"
    using h space_chars_unsafe(2) quote_marks_plain(2) by metis
  have nbr: "hd ?t \<noteq> CHR ''[''" "hd ?t \<noteq> CHR ''{''"
    using h unsafe_chars(8,9) by auto
  have "dropWhile json_whitespace ?t = ?t" using ne nws by (rule dropWhile_hd_id)
  then have closed: "\<not> opens_container ?t"
    using ne nbr by (cases ?t) (simp_all add: opens_container_def)
  have "json_argv (json_loads ?t) = None"
  proof (cases "json_loads ?t")
    case None
    then show ?thesis by simp
  next
    case (Some v)
    have "case json_loads ?t of Some (JArr xs) \<Rightarrow> opens_container ?t
            | Some (JObj kvs) \<Rightarrow> opens_container ?t | _ \<Rightarrow> True"
      using assms(2) unfolding json_loads_sound_def by blast
    then show ?thesis using Some closed by (cases v) simp_all
  qed
  then show ?thesis using assms(1) by (simp add: build_command_def shlex_split_join)
qed

lemma write_cmd_file_chars:
  assumes "c \<in> set (write_cmd_file hybrid_secret cmd)"
  shows "c \<in> set ''#hybrid-mode'' \<or> c \<in> set ''SECRET_TOKEN: '' \<or> c \<in> set (or_empty hybrid_secret)
         \<or> c \<in> set (shlex_join cmd) \<or> c = LF"
  using assms str_join_chars [of c "[LF]"]
  by (fastforce simp: write_cmd_file_def Let_def split: if_splits)

lemma written_without_CR:
  assumes "list_all only_LF_breaks cmd"
    and "case hybrid_secret of None \<Rightarrow> True | Some s \<Rightarrow> s = [] \<or> plain_token s"
  shows "CR \<notin> set (write_cmd_file hybrid_secret cmd)"
proof
  assume "CR \<in> set (write_cmd_file hybrid_secret cmd)"
  then have "CR \<in> set (or_empty hybrid_secret) \<or> CR \<in> set (shlex_join cmd)"
    using write_cmd_file_chars [of CR hybrid_secret cmd] by auto
  then show False
  proof
    assume "CR \<in> set (or_empty hybrid_secret)"
    then obtain s where s: "hybrid_secret = Some s" "CR \<in> set s"
      by (cases hybrid_secret) (auto simp: or_empty_def)
    then have "plain_token s" using assms(2) by auto
    then have "\<not> is_linebreak CR" using s(2) by (auto simp: plain_token_def list_all_iff)
    then show False by simp
  next
    assume "CR \<in> set (shlex_join cmd)"
    then have "\<exists>x\<in>set cmd. CR \<in> set x" using shlex_join_chars [of CR cmd] by auto
    then obtain x where "x \<in> set cmd" "CR \<in> set x" by blast
    then have "is_linebreak CR \<longrightarrow> CR = LF"
      using assms(1) by (auto simp: only_LF_breaks_def list_all_iff)
    then show False by simp
  qed
qed

section \<open>Claim C1: completion reports on a terminal job\<close>

text \<open>
  C1 says that \<open>complete()\<close> on a job in a terminal state changes nothing. The handler has
  no such guard (\<open>cancel_job\<close> has one). Here a job is enqueued, claimed by worker \<open>A\<close>,
  canceled, and then reported complete by \<open>A\<close>: the report is accepted, the state goes
  from \<open>CANCELED\<close> to \<open>SUCCESS\<close>, \<open>finished_at\<close> is overwritten and a result is stored.
\<close>

theorem complete_job_overwrites_canceled:
  "case worker_claim None \<lparr>cl_worker_id = ''A'', cl_runtime_pref = None\<rparr> None
          ''t1'' ''t2'' ''t3'' ''t4''
          (enqueue_job ''job1'' ''t0'' (example_request ''container'') []) of
     (claimed, s1) \<Rightarrow> claimed = Inr (Some ''job1'') \<and>
       (case cancel_job ''job1'' ''t5'' ''t6'' s1 of
          (canceled, s2) \<Rightarrow> canceled = None
            \<and> map_option state (map_of s2 ''job1'') = Some CANCELED
            \<and> map_option finished_at (map_of s2 ''job1'') = Some (Some ''t6'')
            \<and> map_option result (map_of s2 ''job1'') = Some None
            \<and> (case complete_job None ''job1''
                       \<lparr>co_worker_id = ''A'', co_exit_code = 0, co_success = True,
                        co_message = None, co_result = None\<rparr> None ''t7'' ''t8'' s2 of
                  (resp, s3) \<Rightarrow> resp = Inr (''job1'', SUCCESS)
                    \<and> map_option state (map_of s3 ''job1'') = Some SUCCESS
                    \<and> map_option finished_at (map_of s3 ''job1'') = Some (Some ''t7'')
                    \<and> map_option result (map_of s3 ''job1'')
                        = Some (Some \<lparr>exit_code = 0, message = ''success'',
                                      payload = None\<rparr>)))"
  by (simp add: worker_claim_def validate_worker_secret_def str_truthy_def or_empty_def
      atomically_claim_oldest_def claimed_by_def enqueue_job_def worker_start_def
      cancel_job_def complete_job_def str_bool_def str_int_def nat_digits.simps
      example_request_def)

section \<open>Claim C2: what a claim call selects\<close>

text \<open>
  C2, as the code has it. In a store with distinct job ids, a claim call with worker
  \<open>wid\<close> and preference \<open>pref\<close> looks at the jobs that are \<open>PENDING\<close> and, when the
  preference is a non-empty string, have that runtime. If there is none, it returns
  \<open>None\<close> and the store is unchanged. Otherwise the store is \<open>pre @ (jid, j) # post\<close>
  where \<open>j\<close> is such a job, every such job before it was created strictly later and every
  such job after it was created no earlier (the earliest creation time, ties going to the
  job inserted first); the call returns \<open>jid\<close>, and the new store differs only in that
  job: its \<open>state\<close> is \<open>CLAIMED\<close>, its \<open>worker_id\<close> is \<open>wid\<close>, its \<open>claimed_at\<close> is the
  clock reading \<open>t1\<close>, its log has one line more, and its other fields are as before. A
  preference that is the empty string is not applied: it counts as absent.
\<close>

theorem atomically_claim_oldest_selects:
  assumes "distinct (map fst JOBS)"
  shows "if \<exists>item\<in>set JOBS. eligible pref (snd item)
         then \<exists>pre jid j post. JOBS = pre @ (jid, j) # post \<and> eligible pref j
           \<and> (\<forall>item\<in>set pre. eligible pref (snd item) \<longrightarrow> created_at j < created_at (snd item))
           \<and> (\<forall>item\<in>set post. eligible pref (snd item) \<longrightarrow> created_at j \<le> created_at (snd item))
           \<and> atomically_claim_oldest wid pref t1 t2 JOBS
               = (Some jid,
                  pre @ (jid, j\<lparr>state := CLAIMED, worker_id := Some wid, claimed_at := Some t1,
                                logs := logs j @ [''['' @ t2 @ ''] CLAIMED by worker '' @ wid]\<rparr>)
                      # post)
         else atomically_claim_oldest wid pref t1 t2 JOBS = (None, JOBS)"
proof (cases "\<exists>item\<in>set JOBS. eligible pref (snd item)")
  case True
  then show ?thesis using claim_some [OF assms True, of wid t1 t2] by (simp add: claimed_by_def)
next
  case False
  then show ?thesis using claim_none [of JOBS pref] by simp
qed

text \<open>
  The theorem on a store of three jobs: \<open>a\<close> is a \<open>container\<close> job, \<open>b\<close> and \<open>c\<close> are
  \<open>wasm\<close> jobs created at the same time, earlier than \<open>a\<close>. A worker that prefers \<open>wasm\<close>
  gets \<open>b\<close>, which is written as claimed; \<open>a\<close> and \<open>c\<close> stay \<open>PENDING\<close> without a worker.
\<close>

theorem atomically_claim_oldest_selects_witness:
  "distinct (map fst
     (enqueue_job ''c'' ''2024-01-01T00:00:01+00:00'' (example_request ''wasm'')
     (enqueue_job ''b'' ''2024-01-01T00:00:01+00:00'' (example_request ''wasm'')
     (enqueue_job ''a'' ''2024-01-01T00:00:02+00:00'' (example_request ''container'') []))))
   \<and> map (\<lambda>(jid, j). (jid, state j, worker_id j, claimed_at j, logs j))
       (snd (atomically_claim_oldest ''w'' (Some ''wasm'') ''t1'' ''t2''
         (enqueue_job ''c'' ''2024-01-01T00:00:01+00:00'' (example_request ''wasm'')
         (enqueue_job ''b'' ''2024-01-01T00:00:01+00:00'' (example_request ''wasm'')
         (enqueue_job ''a'' ''2024-01-01T00:00:02+00:00'' (example_request ''container'') [])))))
     = [(''a'', PENDING, None, None, []),
        (''b'', CLAIMED, Some ''w'', Some ''t1'', [''[t2] CLAIMED by worker w'']),
        (''c'', PENDING, None, None, [])]
   \<and> fst (atomically_claim_oldest ''w'' (Some ''wasm'') ''t1'' ''t2''
     (enqueue_job ''c'' ''2024-01-01T00:00:01+00:00'' (example_request ''wasm'')
     (enqueue_job ''b'' ''2024-01-01T00:00:01+00:00'' (example_request ''wasm'')
     (enqueue_job ''a'' ''2024-01-01T00:00:02+00:00'' (example_request ''container'') []))))
     = Some ''b''"
  using atomically_claim_oldest_selects [of
     "enqueue_job ''c'' ''2024-01-01T00:00:01+00:00'' (example_request ''wasm'')
     (enqueue_job ''b'' ''2024-01-01T00:00:01+00:00'' (example_request ''wasm'')
     (enqueue_job ''a'' ''2024-01-01T00:00:02+00:00'' (example_request ''container'') []))"
     "Some ''wasm''" "''w''" "''t1''" "''t2''"]
  by (simp add: atomically_claim_oldest_def enqueue_job_def str_truthy_def example_request_def
      claimed_by_def)

text \<open>
  C2 as stated fails when the preference given is the empty string: no \<open>PENDING\<close> job has
  the empty runtime, yet the call claims the \<open>container\<close> job.
\<close>

theorem claim_empty_preference_counterexample:
  "filter (\<lambda>item. eligible_as_given (Some []) (snd item))
     (enqueue_job ''a'' ''2024-01-01T00:00:02+00:00'' (example_request ''container'') []) = []
   \<and> fst (atomically_claim_oldest ''w'' (Some []) ''t1'' ''t2''
     (enqueue_job ''a'' ''2024-01-01T00:00:02+00:00'' (example_request ''container'') []))
     = Some ''a''"
  by (simp add: atomically_claim_oldest_def enqueue_job_def str_truthy_def
      eligible_as_given_def example_request_def)

section \<open>Claim C3: at most one claim\<close>

text \<open>
  C3, as the code has it. The claim calls that run concurrently are admitted one at a time
  by the lock, in some order; \<open>callers\<close> is that order, and the theorem holds for every
  order. In a store with distinct job ids, every caller gets an answer, no job id is
  handed to two callers, and when exactly one job \<open>jid0\<close> is \<open>PENDING\<close> and at least one
  caller's preference admits it (the caller gives no preference or the empty one, or
  prefers the runtime of the job), exactly one caller receives \<open>jid0\<close> and the other
  \<open>N - 1\<close> callers receive \<open>None\<close>.
\<close>

theorem at_most_one_claim:
  assumes "distinct (map fst JOBS)" and "claim_all callers JOBS = (rs, JOBS')"
  shows "length rs = length callers
    \<and> distinct (filter (\<lambda>r. r \<noteq> None) rs)
    \<and> (filter (\<lambda>item. state (snd item) = PENDING) JOBS = [(jid0, j0)]
        \<and> (\<exists>c\<in>set callers. eligible (fst (snd c)) j0)
        \<longrightarrow> filter (\<lambda>r. r \<noteq> None) rs = [Some jid0]
            \<and> length (filter (\<lambda>r. r = None) rs) = length callers - 1)"
proof -
  have len: "length rs = length callers" using assms(2) by (rule claim_all_length)
  have dist: "distinct (filter (\<lambda>r. r \<noteq> None) rs)"
    using claim_all_distinct_aux [OF assms] by simp
  have one: "filter (\<lambda>r. r \<noteq> None) rs = [Some jid0]
             \<and> length (filter (\<lambda>r. r = None) rs) = length callers - 1"
    if h: "filter (\<lambda>item. state (snd item) = PENDING) JOBS = [(jid0, j0)]"
          "\<exists>c\<in>set callers. eligible (fst (snd c)) j0"
  proof -
    have f: "filter (\<lambda>r. r \<noteq> None) rs = [Some jid0]"
      using claim_all_single_pending [OF assms(1) h assms(2)] .
    have "length (filter (\<lambda>r. r \<noteq> None) rs) + length (filter (\<lambda>r. r = None) rs) = length rs"
      using sum_length_filter_compl [of "\<lambda>r. r \<noteq> None" rs] by simp
    then show ?thesis using f len by simp
  qed
  show ?thesis using len dist one by blast
qed

theorem at_most_one_claim_witness:
  "distinct (map fst
     (enqueue_job ''a'' ''2024-01-01T00:00:02+00:00'' (example_request ''container'') []))
   \<and> fst (claim_all [(''w1'', None, ''t1'', ''t2''), (''w2'', Some ''container'', ''t3'', ''t4''),
                     (''w3'', None, ''t5'', ''t6'')]
     (enqueue_job ''a'' ''2024-01-01T00:00:02+00:00'' (example_request ''container'') []))
     = [Some ''a'', None, None]"
  using at_most_one_claim [of
     "enqueue_job ''a'' ''2024-01-01T00:00:02+00:00'' (example_request ''container'') []"
     "[(''w1'', None, ''t1'', ''t2''), (''w2'', Some ''container'', ''t3'', ''t4''),
       (''w3'', None, ''t5'', ''t6'')]"]
  by (simp add: atomically_claim_oldest_def enqueue_job_def str_truthy_def claimed_by_def
      example_request_def)

text \<open>
  C3 as stated fails when no caller's preference admits the one \<open>PENDING\<close> job: the store
  holds one \<open>container\<close> job, two callers prefer \<open>wasm\<close>, and both receive \<open>None\<close>; the
  job stays \<open>PENDING\<close>.
\<close>

theorem no_caller_eligible_counterexample:
  "map fst (filter (\<lambda>item. state (snd item) = PENDING)
     (enqueue_job ''a'' ''2024-01-01T00:00:02+00:00'' (example_request ''container'') []))
   = [''a'']
   \<and> fst (claim_all [(''w1'', Some ''wasm'', ''t1'', ''t2''), (''w2'', Some ''wasm'', ''t3'', ''t4'')]
     (enqueue_job ''a'' ''2024-01-01T00:00:02+00:00'' (example_request ''container'') []))
     = [None, None]
   \<and> map (\<lambda>(jid, j). (jid, state j, worker_id j))
       (snd (claim_all [(''w1'', Some ''wasm'', ''t1'', ''t2''), (''w2'', Some ''wasm'', ''t3'', ''t4'')]
         (enqueue_job ''a'' ''2024-01-01T00:00:02+00:00'' (example_request ''container'') [])))
     = [(''a'', PENDING, None)]"
  by (simp add: atomically_claim_oldest_def enqueue_job_def str_truthy_def example_request_def)

section \<open>Claim C4: worker isolation\<close>

text \<open>
  C4, as the code has it. Take a stored job and a call that passes the worker-secret
  check. If the job's worker is a non-empty id \<open>A\<close>, an append or a complete call that
  carries another worker id is rejected with \<open>WorkerMismatch\<close> and the whole store (state,
  logs, result and timestamps of every job) is unchanged. If the job has no worker (or
  the empty id), an append is accepted, adds its lines to the log and leaves
  \<open>worker_id\<close> as it was.
\<close>

theorem worker_mismatch_rejected:
  assumes "map_of JOBS jid = Some j"
    and "validate_worker_secret WORKER_SECRET x_worker_secret"
  shows "(worker_id j = Some A \<and> A \<noteq> [] \<and> ap_worker_id areq \<noteq> A \<longrightarrow>
            append_job_logs WORKER_SECRET jid areq x_worker_secret ts JOBS
              = (Some WorkerMismatch, JOBS))
       \<and> (worker_id j = Some A \<and> A \<noteq> [] \<and> co_worker_id creq \<noteq> A \<longrightarrow>
            complete_job WORKER_SECRET jid creq x_worker_secret now_finished now_log JOBS
              = (Inl WorkerMismatch, JOBS))
       \<and> (\<not> str_truthy (worker_id j) \<longrightarrow>
            append_job_logs WORKER_SECRET jid areq x_worker_secret ts JOBS
              = (None, AList.update jid
                  (j\<lparr>logs := logs j @
                       map (\<lambda>line. ''['' @ ts @ ''] '' @ ap_worker_id areq @ '': '' @ line)
                         (ap_lines areq)\<rparr>) JOBS)
            \<and> map_option worker_id
                 (map_of (snd (append_job_logs WORKER_SECRET jid areq x_worker_secret ts JOBS)) jid)
               = Some (worker_id j))"
  using assms
  by (auto simp: append_job_logs_def complete_job_def str_truthy_def update_conv')

theorem worker_mismatch_rejected_witness:
  "map_option worker_id (map_of
      (snd (atomically_claim_oldest ''A'' None ''t1'' ''t2''
         (enqueue_job ''job1'' ''t0'' (example_request ''container'') []))) ''job1'')
     = Some (Some ''A'')
   \<and> validate_worker_secret (Some ''s3cret'') (Some ''s3cret'')
   \<and> append_job_logs (Some ''s3cret'') ''job1''
        \<lparr>ap_worker_id = ''B'', ap_lines = [''hello'']\<rparr> (Some ''s3cret'') ''t3''
        (snd (atomically_claim_oldest ''A'' None ''t1'' ''t2''
           (enqueue_job ''job1'' ''t0'' (example_request ''container'') [])))
      = (Some WorkerMismatch,
         snd (atomically_claim_oldest ''A'' None ''t1'' ''t2''
           (enqueue_job ''job1'' ''t0'' (example_request ''container'') [])))
   \<and> complete_job (Some ''s3cret'') ''job1''
        \<lparr>co_worker_id = ''B'', co_exit_code = 0, co_success = True,
         co_message = None, co_result = None\<rparr> (Some ''s3cret'') ''t3'' ''t4''
        (snd (atomically_claim_oldest ''A'' None ''t1'' ''t2''
           (enqueue_job ''job1'' ''t0'' (example_request ''container'') [])))
      = (Inl WorkerMismatch,
         snd (atomically_claim_oldest ''A'' None ''t1'' ''t2''
           (enqueue_job ''job1'' ''t0'' (example_request ''container'') [])))"
proof -
  let ?mid = "snd (atomically_claim_oldest ''A'' None ''t1'' ''t2''
           (enqueue_job ''job1'' ''t0'' (example_request ''container'') []))"
  have look: "map_of ?mid ''job1'' = Some (the (map_of ?mid ''job1''))"
    by (simp add: atomically_claim_oldest_def enqueue_job_def str_truthy_def)
  have w: "worker_id (the (map_of ?mid ''job1'')) = Some ''A''"
    by (simp add: atomically_claim_oldest_def enqueue_job_def str_truthy_def claimed_by_def)
  have v: "validate_worker_secret (Some ''s3cret'') (Some ''s3cret'')"
    by (simp add: validate_worker_secret_def str_truthy_def or_empty_def)
  from worker_mismatch_rejected [OF look v, of "''A''"
      "\<lparr>ap_worker_id = ''B'', ap_lines = [''hello'']\<rparr>" "''t3''"
      "\<lparr>co_worker_id = ''B'', co_exit_code = 0, co_success = True,
         co_message = None, co_result = None\<rparr>" "''t3''" "''t4''"]
  have "append_job_logs (Some ''s3cret'') ''job1''
        \<lparr>ap_worker_id = ''B'', ap_lines = [''hello'']\<rparr> (Some ''s3cret'') ''t3'' ?mid
      = (Some WorkerMismatch, ?mid)
    \<and> complete_job (Some ''s3cret'') ''job1''
        \<lparr>co_worker_id = ''B'', co_exit_code = 0, co_success = True,
         co_message = None, co_result = None\<rparr> (Some ''s3cret'') ''t3'' ''t4'' ?mid
      = (Inl WorkerMismatch, ?mid)"
    using w by simp
  moreover have "map_option worker_id (map_of ?mid ''job1'') = Some (Some ''A'')"
    using look w by (metis option.simps(9))
  ultimately show ?thesis using v by blast
qed

text \<open>
  C4 as stated fails for a job claimed by the worker whose id is the empty string: the
  handlers test \<open>j.get("worker_id")\<close> for truth, so that job counts as unassigned and
  worker \<open>B\<close> may append to it and complete it. A call with a wrong worker secret is
  rejected with \<open>InvalidSecret\<close> before the worker ids are compared.
\<close>

theorem empty_worker_id_counterexample:
  "map_option worker_id (map_of
      (snd (atomically_claim_oldest [] None ''t1'' ''t2''
         (enqueue_job ''job1'' ''t0'' (example_request ''container'') []))) ''job1'')
     = Some (Some [])
   \<and> fst (append_job_logs None ''job1''
        \<lparr>ap_worker_id = ''B'', ap_lines = [''hello'']\<rparr> None ''t3''
        (snd (atomically_claim_oldest [] None ''t1'' ''t2''
           (enqueue_job ''job1'' ''t0'' (example_request ''container'') [])))) = None
   \<and> fst (complete_job None ''job1''
        \<lparr>co_worker_id = ''B'', co_exit_code = 0, co_success = True,
         co_message = None, co_result = None\<rparr> None ''t3'' ''t4''
        (snd (atomically_claim_oldest [] None ''t1'' ''t2''
           (enqueue_job ''job1'' ''t0'' (example_request ''container'') []))))
      = Inr (''job1'', SUCCESS)
   \<and> fst (append_job_logs (Some ''s3cret'') ''job1''
        \<lparr>ap_worker_id = ''B'', ap_lines = [''hello'']\<rparr> (Some ''wrong'') ''t3''
        (snd (atomically_claim_oldest ''A'' None ''t1'' ''t2''
           (enqueue_job ''job1'' ''t0'' (example_request ''container'') []))))
      = Some InvalidSecret"
  by (simp add: atomically_claim_oldest_def enqueue_job_def str_truthy_def claimed_by_def
      append_job_logs_def complete_job_def validate_worker_secret_def or_empty_def
      example_request_def)

section \<open>Claim C5: a worker id, once set, stays\<close>

lemma keeps_workers_refl: "keeps_workers s s"
  by (simp add: keeps_workers_def)

lemma keeps_workers_trans: "keeps_workers a b \<Longrightarrow> keeps_workers b c \<Longrightarrow> keeps_workers a c"
  unfolding keeps_workers_def by blast

lemma update_same_worker:
  assumes "store_inv s" "map_of s k = Some j" "worker_id j' = worker_id j"
    "state j' = PENDING \<longrightarrow> state j = PENDING"
  shows "store_inv (AList.update k j' s) \<and> keeps_workers s (AList.update k j' s)"
proof -
  have d: "distinct (map fst (AList.update k j' s))"
    using assms(1) by (simp add: store_inv_def distinct_update)
  have m: "map_of (AList.update k j' s) = (map_of s)(k \<mapsto> j')" by (rule update_conv')
  have p: "\<forall>k j. map_of s k = Some j \<longrightarrow> state j = PENDING \<longrightarrow> worker_id j = None"
    using assms(1) by (simp add: store_inv_def)
  have "\<forall>a b. ((map_of s)(k \<mapsto> j')) a = Some b \<longrightarrow> state b = PENDING \<longrightarrow> worker_id b = None"
    using p assms(2,3,4) by (simp del: map_of_eq_Some_iff)
  moreover have "keeps_workers s (AList.update k j' s)"
    unfolding keeps_workers_def m using assms(2,3) by (simp del: map_of_eq_Some_iff)
  ultimately show ?thesis using d unfolding store_inv_def m by blast
qed

lemma update_claim:
  assumes "store_inv s" "map_of s k = Some j" "state j = PENDING" "state j' \<noteq> PENDING"
  shows "store_inv (AList.update k j' s) \<and> keeps_workers s (AList.update k j' s)"
proof -
  have d: "distinct (map fst (AList.update k j' s))"
    using assms(1) by (simp add: store_inv_def distinct_update)
  have m: "map_of (AList.update k j' s) = (map_of s)(k \<mapsto> j')" by (rule update_conv')
  have p: "\<forall>k j. map_of s k = Some j \<longrightarrow> state j = PENDING \<longrightarrow> worker_id j = None"
    using assms(1) by (simp add: store_inv_def)
  have none: "worker_id j = None" using p assms(2,3) by blast
  have "\<forall>a b. ((map_of s)(k \<mapsto> j')) a = Some b \<longrightarrow> state b = PENDING \<longrightarrow> worker_id b = None"
    using p assms(4) by (simp del: map_of_eq_Some_iff)
  moreover have "keeps_workers s (AList.update k j' s)"
    unfolding keeps_workers_def m using assms(2) none by (simp del: map_of_eq_Some_iff)
  ultimately show ?thesis using d unfolding store_inv_def m by blast
qed

lemma step_enqueue:
  assumes "store_inv s" "k \<notin> fst ` set s"
  shows "store_inv (enqueue_job k now req s) \<and> keeps_workers s (enqueue_job k now req s)"
proof -
  have none: "map_of s k = None" using assms(2) by (simp add: map_of_eq_None_iff)
  show ?thesis using assms(1) none unfolding store_inv_def keeps_workers_def enqueue_job_def
    by (auto simp: update_conv' distinct_update simp del: map_of_eq_Some_iff)
qed

lemma hd_sort_key_in_set: "xs \<noteq> [] \<Longrightarrow> hd (sort_key f xs) \<in> set xs"
  by (metis hd_in_set set_sort sort_key_Nil_iff)

lemma step_claim:
  assumes "store_inv s"
  shows "store_inv (snd (atomically_claim_oldest wid pref t1 t2 s))
         \<and> keeps_workers s (snd (atomically_claim_oldest wid pref t1 t2 s))"
proof (cases "filter (\<lambda>item. eligible pref (snd item)) s = []")
  case True
  then show ?thesis using assms by (simp add: claim_oldest_unfold Let_def keeps_workers_refl)
next
  case False
  let ?m = "hd (sort_key (\<lambda>item. created_at (snd item)) (filter (\<lambda>item. eligible pref (snd item)) s))"
  have "?m \<in> set (filter (\<lambda>item. eligible pref (snd item)) s)"
    using False by (rule hd_sort_key_in_set)
  then have mem: "(fst ?m, snd ?m) \<in> set s" and el: "eligible pref (snd ?m)" by simp_all
  have look: "map_of s (fst ?m) = Some (snd ?m)"
    using mem assms by (simp add: store_inv_def)
  have "store_inv (AList.update (fst ?m) (claimed_by wid t1 t2 (snd ?m)) s)
        \<and> keeps_workers s (AList.update (fst ?m) (claimed_by wid t1 t2 (snd ?m)) s)"
    using update_claim [OF assms look] el by (simp add: eligible_pending)
  then show ?thesis using False by (simp add: claim_oldest_unfold Let_def)
qed

lemma step_preserves:
  assumes "step s s'" "store_inv s"
  shows "store_inv s' \<and> keeps_workers s s'"
  using assms
proof (induction rule: step.induct)
  case (enqueue new_id JOBS now req)
  then show ?case by (simp add: step_enqueue)
next
  case (claim JOBS wid runtime_pref now_claimed now_log)
  then show ?case by (simp add: step_claim)
next
  case (start JOBS jid wid now_started now_log)
  then show ?case
    by (auto simp: worker_start_def keeps_workers_refl split: option.splits
        intro!: update_same_worker [THEN conjunct1] update_same_worker [THEN conjunct2])
next
  case (append JOBS WORKER_SECRET jid areq x_worker_secret ts)
  then show ?case
    by (auto simp: append_job_logs_def keeps_workers_refl split: option.splits
        intro!: update_same_worker [THEN conjunct1] update_same_worker [THEN conjunct2])
next
  case (complete JOBS WORKER_SECRET jid creq x_worker_secret now_finished now_log)
  then show ?case
    by (auto simp: complete_job_def keeps_workers_refl Let_def split: option.splits
        intro!: update_same_worker [THEN conjunct1] update_same_worker [THEN conjunct2])
next
  case (cancel JOBS jid now_log now_finished)
  then show ?case
    by (auto simp: cancel_job_def keeps_workers_refl split: option.splits
        intro!: update_same_worker [THEN conjunct1] update_same_worker [THEN conjunct2])
next
  case (sim_begin JOBS jid now_started now_log)
  then show ?case
    by (auto simp: simulate_begin_def keeps_workers_refl split: option.splits
        intro!: update_same_worker [THEN conjunct1] update_same_worker [THEN conjunct2])
next
  case (sim_step JOBS jid step_text now)
  then show ?case
    by (auto simp: simulate_step_def keeps_workers_refl split: option.splits
        intro!: update_same_worker [THEN conjunct1] update_same_worker [THEN conjunct2])
next
  case (sim_finish JOBS jid now_log now_finished)
  then show ?case
    by (auto simp: simulate_finish_def keeps_workers_refl split: option.splits
        intro!: update_same_worker [THEN conjunct1] update_same_worker [THEN conjunct2])
qed

lemma steps_preserve:
  assumes "step\<^sup>*\<^sup>* s s'" "store_inv s"
  shows "store_inv s' \<and> keeps_workers s s'"
  using assms
proof (induction rule: rtranclp_induct)
  case base
  then show ?case by (simp add: keeps_workers_refl)
next
  case (step y z)
  then show ?case using step_preserves [of y z] keeps_workers_trans by blast
qed

lemma store_inv_empty: "store_inv []"
  by (simp add: store_inv_def)

text \<open>
  C5. In every store \<open>s\<close> reachable from the empty store, and for every sequence of
  further steps (enqueue, claim, start, append, complete, cancel and the parts of the
  simulated run, with any arguments) leading to \<open>s'\<close>: a job that has worker \<open>w\<close> in
  \<open>s\<close> is still stored in \<open>s'\<close> and still has worker \<open>w\<close>.
\<close>

theorem worker_id_never_overwritten:
  assumes "reachable s" and "step\<^sup>*\<^sup>* s s'"
    and "map_of s jid = Some j" and "worker_id j = Some w"
  shows "\<exists>j'. map_of s' jid = Some j' \<and> worker_id j' = Some w"
proof -
  have "store_inv s" using assms(1) steps_preserve [OF _ store_inv_empty]
    by (simp add: reachable_def)
  then have "keeps_workers s s'" using steps_preserve [OF assms(2)] by simp
  then show ?thesis using assms(3,4) unfolding keeps_workers_def by blast
qed

theorem worker_id_never_overwritten_witness:
  "reachable (snd (atomically_claim_oldest ''A'' None ''t1'' ''t2''
       (enqueue_job ''job1'' ''t0'' (example_request ''container'') [])))
   \<and> map_option worker_id (map_of (snd (atomically_claim_oldest ''A'' None ''t1'' ''t2''
       (enqueue_job ''job1'' ''t0'' (example_request ''container'') []))) ''job1'')
       = Some (Some ''A'')
   \<and> map_option worker_id (map_of
       (snd (atomically_claim_oldest ''B'' None ''t5'' ''t6''
         (snd (cancel_job ''job1'' ''t3'' ''t4''
           (snd (atomically_claim_oldest ''A'' None ''t1'' ''t2''
             (enqueue_job ''job1'' ''t0'' (example_request ''container'') []))))))) ''job1'')
       = Some (Some ''A'')"
proof -
  let ?init = "enqueue_job ''job1'' ''t0'' (example_request ''container'') []"
  let ?mid = "snd (atomically_claim_oldest ''A'' None ''t1'' ''t2'' ?init)"
  let ?canceled = "snd (cancel_job ''job1'' ''t3'' ''t4'' ?mid)"
  let ?after = "snd (atomically_claim_oldest ''B'' None ''t5'' ''t6'' ?canceled)"
  have e: "step [] ?init" by (rule step.enqueue) simp
  have c: "step ?init ?mid" by (rule step.claim)
  have "step\<^sup>*\<^sup>* [] ?init" using e by (rule r_into_rtranclp)
  then have "step\<^sup>*\<^sup>* [] ?mid" using c by (rule rtranclp.rtrancl_into_rtrancl)
  then have reach: "reachable ?mid" by (simp only: reachable_def)
  have "step\<^sup>*\<^sup>* ?mid ?canceled" by (rule r_into_rtranclp) (rule step.cancel)
  then have st: "step\<^sup>*\<^sup>* ?mid ?after"
    by (rule rtranclp.rtrancl_into_rtrancl) (rule step.claim)
  have look: "map_of ?mid ''job1'' = Some (the (map_of ?mid ''job1''))"
    by (simp add: atomically_claim_oldest_def enqueue_job_def str_truthy_def)
  have w: "worker_id (the (map_of ?mid ''job1'')) = Some ''A''"
    by (simp add: atomically_claim_oldest_def enqueue_job_def str_truthy_def claimed_by_def)
  from worker_id_never_overwritten [OF reach st look w]
  have "map_option worker_id (map_of ?after ''job1'') = Some (Some ''A'')" by auto
  then show ?thesis using reach look w by (metis option.simps(9))
qed

section \<open>Claim C6: the command file round-trips\<close>

text \<open>
  C6, as the code has it. Let the command be a non-empty list of strings whose only line
  boundaries are line feeds, and let the worker's secret be absent, empty, or a token
  without white space at its ends and without line boundaries. Then the agent's parser,
  on the file the worker writes (read back in text mode), returns no error, the token
  that was written (none when the secret is absent or empty) and the joined command;
  and \<open>build_command\<close> turns the joined command back into the original list. The
  decoder \<open>json_loads\<close> is any function that yields a list or a dictionary only for a
  text that opens with a bracket or a brace, as \<open>json.loads\<close> does.
\<close>

theorem command_file_round_trip:
  assumes "cmd \<noteq> []" and "list_all only_LF_breaks cmd"
    and "case hybrid_secret of None \<Rightarrow> True | Some s \<Rightarrow> s = [] \<or> plain_token s"
    and "json_loads_sound json_loads"
  shows "parse_cmd_file (universal_newlines (write_cmd_file hybrid_secret cmd))
           = ((if str_truthy hybrid_secret then hybrid_secret else None),
              Some (shlex_join cmd), None)
         \<and> build_command json_loads (shlex_join cmd) = (Some cmd, None)"
proof -
  have u: "universal_newlines (write_cmd_file hybrid_secret cmd) = write_cmd_file hybrid_secret cmd"
    using written_without_CR [OF assms(2,3)] by (rule universal_newlines_id)
  have p: "parse_cmd_file (write_cmd_file hybrid_secret cmd)
           = ((if str_truthy hybrid_secret then hybrid_secret else None),
              Some (shlex_join cmd), None)"
  proof (cases "str_truthy hybrid_secret")
    case False
    then show ?thesis using parse_without_secret [OF assms(1,2) False] by simp
  next
    case True
    then obtain s where s: "hybrid_secret = Some s" "s \<noteq> []"
      by (cases hybrid_secret) (auto simp: str_truthy_def)
    then have "plain_token s" using assms(3) by simp
    then show ?thesis using parse_with_secret [OF assms(1,2)] s True by simp
  qed
  show ?thesis using u p build_command_join [OF assms(1,4)] by simp
qed

theorem command_file_round_trip_witness:
  "[''/bin/echo'', ''hi there'', ''a'' @ [LF] @ ''b''] \<noteq> []
   \<and> list_all only_LF_breaks [''/bin/echo'', ''hi there'', ''a'' @ [LF] @ ''b'']
   \<and> plain_token ''abc''
   \<and> json_loads_sound example_json_loads
   \<and> parse_cmd_file (universal_newlines
         (write_cmd_file (Some ''abc'') [''/bin/echo'', ''hi there'', ''a'' @ [LF] @ ''b'']))
       = (Some ''abc'', Some (shlex_join [''/bin/echo'', ''hi there'', ''a'' @ [LF] @ ''b'']), None)
   \<and> build_command example_json_loads
         (shlex_join [''/bin/echo'', ''hi there'', ''a'' @ [LF] @ ''b''])
       = (Some [''/bin/echo'', ''hi there'', ''a'' @ [LF] @ ''b''], None)"
proof -
  have a: "[''/bin/echo'', ''hi there'', ''a'' @ [LF] @ ''b''] \<noteq> []" by simp
  have b: "list_all only_LF_breaks [''/bin/echo'', ''hi there'', ''a'' @ [LF] @ ''b'']"
    by (simp add: only_LF_breaks_def is_linebreak_def)
  have t: "plain_token ''abc''"
    by (simp add: plain_token_def py_isspace_def is_linebreak_def)
  then have c: "case Some ''abc'' of None \<Rightarrow> True | Some s \<Rightarrow> s = [] \<or> plain_token s" by simp
  from command_file_round_trip [OF a b c example_json_loads_sound]
  show ?thesis using a b t example_json_loads_sound by (simp add: str_truthy_def)
qed

text \<open>
  C6 as stated fails in two ways. A secret with white space at an end is written as it is
  and read back stripped: \<open>" abc"\<close> comes back as \<open>"abc"\<close>. An argument with a
  carriage return is split there by \<open>splitlines\<close> and joined with a line feed:
  \<open>"a\rb"\<close> comes back as \<open>"a\nb"\<close>.
\<close>

theorem command_file_round_trip_counterexample:
  "fst (parse_cmd_file (universal_newlines (write_cmd_file (Some '' abc'') [''/bin/echo''])))
     = Some ''abc''
   \<and> (case parse_cmd_file (universal_newlines
              (write_cmd_file None [''/bin/echo'', ''a'' @ [CR] @ ''b''])) of
        (tok, cmd_text, err) \<Rightarrow>
          err = None
          \<and> build_command example_json_loads (or_empty cmd_text)
              = (Some [''/bin/echo'', ''a'' @ [LF] @ ''b''], None))"
  by (simp add: parse_cmd_file_def write_cmd_file_def shlex_join_def shlex_quote_def
      shlex_safe_def replace_squote_def splitlines_def is_linebreak_def py_strip_def
      py_isspace_def startswith_def MAGIC_HEADER_def str_truthy_def or_empty_def
      py_upper_def py_upper_char_def build_command_def example_json_loads_def
      json_whitespace_def shlex_split_def shlex_whitespace_def shlex_is_quote_def emit_def)

section \<open>Claim C7: rejection on a missing or wrong secret token\<close>

text \<open>
  What \<open>parse_cmd_file\<close> returns on a file of the specified form, read in text mode: the
  token with the white space around it removed, and the payload unless it is blank.
\<close>

lemma parse_error_truthy:
  "str_truthy (snd (snd (parse_cmd_file t))) = (snd (snd (parse_cmd_file t)) \<noteq> None)"
  by (auto simp: parse_cmd_file_def Let_def str_truthy_def split: prod.splits)

lemma linebreak_space: "is_linebreak c \<Longrightarrow> py_isspace c"
  by (auto simp: is_linebreak_def py_isspace_def)

lemma py_strip_Nil_iff: "py_strip x = [] \<longleftrightarrow> list_all py_isspace x"
proof
  assume a: "py_strip x = []"
  show "list_all py_isspace x"
  proof (rule ccontr)
    assume n: "\<not> list_all py_isspace x"
    then have ne: "dropWhile py_isspace x \<noteq> []" by (simp add: dropWhile_eq_Nil_conv list_all_iff)
    then have "\<not> py_isspace (hd (dropWhile py_isspace x))" by (rule hd_dropWhile)
    moreover have "hd (dropWhile py_isspace x) \<in> set (rev (dropWhile py_isspace x))"
      using ne by simp
    ultimately have "dropWhile py_isspace (rev (dropWhile py_isspace x)) \<noteq> []"
      by (auto simp: dropWhile_eq_Nil_conv)
    then show False using a by (simp add: py_strip_def)
  qed
next
  assume "list_all py_isspace x"
  then have d: "dropWhile py_isspace x = []" by (simp add: dropWhile_eq_Nil_conv list_all_iff)
  show "py_strip x = []" unfolding py_strip_def d by simp
qed

lemma str_join_blank:
  "list_all py_isspace (str_join [LF] ls) = (\<forall>l\<in>set ls. list_all py_isspace l)"
  by (induction "[LF]" ls rule: str_join.induct) (auto simp: py_isspace_def)

lemma splitlines_blank:
  "(\<forall>l\<in>set (splitlines_from cur p). list_all py_isspace l) = list_all py_isspace (cur @ p)"
  by (induction cur p rule: splitlines_from.induct) (auto simp: linebreak_space)

lemma universal_newlines_blank:
  "list_all py_isspace (universal_newlines p) = list_all py_isspace p"
  by (induction p rule: universal_newlines.induct) (auto simp: py_isspace_def)

lemma universal_newlines_line:
  "CR \<notin> set a \<Longrightarrow> universal_newlines (a @ LF # b) = a @ LF # universal_newlines b"
proof (induction a)
  case Nil
  then show ?case by (cases b) simp_all
next
  case (Cons c a)
  then have "universal_newlines (c # (a @ LF # b)) = c # universal_newlines (a @ LF # b)"
    by (cases "a @ LF # b") auto
  then show ?case using Cons by simp
qed

lemma body_text:
  "(py_strip (str_join [LF] (splitlines_from [] (universal_newlines body))) = [])
   = list_all py_isspace body"
  using splitlines_blank [of "[]" "universal_newlines body"]
  by (simp add: py_strip_Nil_iff str_join_blank universal_newlines_blank)

lemma token_line:
  "py_strip (''SECRET_TOKEN: '' @ t) \<noteq> []"
  "CHR '':'' \<in> set (''SECRET_TOKEN: '' @ t)"
  "takeWhile (\<lambda>c. c \<noteq> CHR '':'') (''SECRET_TOKEN: '' @ t) = ''SECRET_TOKEN''"
  "tl (dropWhile (\<lambda>c. c \<noteq> CHR '':'') (''SECRET_TOKEN: '' @ t)) = CHR '' '' # t"
  "py_strip (CHR '' '' # t) = py_strip t"
  by (simp_all add: py_strip_Nil_iff py_isspace_def py_strip_def)

lemma parse_spec_command_file:
  assumes "case token of None \<Rightarrow> True | Some t \<Rightarrow> list_all (\<lambda>c. \<not> is_linebreak c) t"
  shows "parse_cmd_file (universal_newlines (spec_command_file token body))
         = (map_option py_strip token,
            if list_all py_isspace body then None
            else Some (py_strip (str_join [LF] (splitlines_from [] (universal_newlines body)))),
            if list_all py_isspace body then Some ''no command payload found'' else None)"
proof (cases token)
  case None
  let ?P = "splitlines_from [] (universal_newlines body)"
  have written: "spec_command_file token body = ''#hybrid-mode'' @ LF # ([] @ LF # body)"
    using None by (simp add: spec_command_file_def)
  have "universal_newlines (spec_command_file token body)
        = ''#hybrid-mode'' @ LF # universal_newlines ([] @ LF # body)"
    unfolding written by (rule universal_newlines_line) simp
  also have "universal_newlines ([] @ LF # body) = [] @ LF # universal_newlines body"
    by (rule universal_newlines_line) simp
  finally have rd: "universal_newlines (spec_command_file token body)
        = ''#hybrid-mode'' @ LF # ([] @ LF # universal_newlines body)" .
  have "splitlines (universal_newlines (spec_command_file token body))
        = ([] @ ''#hybrid-mode'') # splitlines_from [] ([] @ LF # universal_newlines body)"
    unfolding rd splitlines_def by (rule splitlines_line [OF magic_line(2)])
  also have "splitlines_from [] ([] @ LF # universal_newlines body) = ([] @ []) # ?P"
    by (rule splitlines_line) simp
  finally have lines: "splitlines (universal_newlines (spec_command_file token body))
        = ''#hybrid-mode'' # [] # ?P" by simp
  show ?thesis
    unfolding parse_cmd_file_def lines
    using None body_text [of body] magic_line(1,3)
    by (simp add: Let_def py_strip_def [of "[]"])
next
  case (Some t)
  let ?P = "splitlines_from [] (universal_newlines body)"
  let ?line = "''SECRET_TOKEN: '' @ t"
  have t: "\<forall>c\<in>set t. \<not> is_linebreak c" using assms Some by (simp add: list_all_iff)
  have nb: "\<forall>c\<in>set ?line. \<not> is_linebreak c" using t secret_key(2) by auto
  then have nocr: "CR \<notin> set ?line" using linebreak_CR by blast
  have written: "spec_command_file token body
                 = ''#hybrid-mode'' @ LF # (?line @ LF # ([] @ LF # body))"
    using Some by (simp add: spec_command_file_def)
  have "universal_newlines (spec_command_file token body)
        = ''#hybrid-mode'' @ LF # universal_newlines (?line @ LF # ([] @ LF # body))"
    unfolding written by (rule universal_newlines_line) simp
  also have "universal_newlines (?line @ LF # ([] @ LF # body))
             = ?line @ LF # universal_newlines ([] @ LF # body)"
    by (rule universal_newlines_line [OF nocr])
  also have "universal_newlines ([] @ LF # body) = [] @ LF # universal_newlines body"
    by (rule universal_newlines_line) simp
  finally have rd: "universal_newlines (spec_command_file token body)
        = ''#hybrid-mode'' @ LF # (?line @ LF # ([] @ LF # universal_newlines body))" .
  have "splitlines (universal_newlines (spec_command_file token body))
        = ([] @ ''#hybrid-mode'')
          # splitlines_from [] (?line @ LF # ([] @ LF # universal_newlines body))"
    unfolding rd splitlines_def by (rule splitlines_line [OF magic_line(2)])
  also have "splitlines_from [] (?line @ LF # ([] @ LF # universal_newlines body))
             = ([] @ ?line) # splitlines_from [] ([] @ LF # universal_newlines body)"
    by (rule splitlines_line [OF nb])
  also have "splitlines_from [] ([] @ LF # universal_newlines body) = ([] @ []) # ?P"
    by (rule splitlines_line) simp
  finally have lines: "splitlines (universal_newlines (spec_command_file token body))
        = ''#hybrid-mode'' # ?line # [] # ?P" by simp
  have hdr: "parse_headers None (?line # [] # ?P) = (Some (py_strip t), ?P)"
    using token_line [of t] secret_key(1) by (simp add: Let_def py_strip_def [of "[]"])
  show ?thesis
    unfolding parse_cmd_file_def lines
    using Some body_text [of body] magic_line(1,3) hdr
    by (simp add: Let_def)
qed

lemma rejects_parsed_token:
  assumes "fst (parse_cmd_file file_text) \<noteq> Some s \<or> s = []"
  shows "process_single (Some s) dry_run json_loads run_job True (Some file_text) now
         = Some ((case snd (snd (parse_cmd_file file_text)) of
                    None \<Rightarrow>
                      \<lparr>exitCode = 1, stdout = [],
                       stderr = ''SECRET_TOKEN missing or invalid'', timestamp = now\<rparr>
                  | Some parse_err \<Rightarrow>
                      \<lparr>exitCode = - 1, stdout = [],
                       stderr = ''parse-error: '' @ parse_err, timestamp = now\<rparr>),
                 None)"
proof -
  obtain tok cmd_text err where p: "parse_cmd_file file_text = (tok, cmd_text, err)"
    by (cases "parse_cmd_file file_text") auto
  have t: "str_truthy err = (err \<noteq> None)" using parse_error_truthy [of file_text] p by simp
  have tok: "\<not> str_truthy tok \<or> tok \<noteq> Some s" using assms p by (auto simp: str_truthy_def)
  show ?thesis
  proof (cases err)
    case None
    then show ?thesis using p t tok by (auto simp: process_single_def)
  next
    case (Some e)
    then show ?thesis using p t by (simp add: process_single_def or_empty_def)
  qed
qed

lemma example_cmd_file_parse:
  "parse_cmd_file example_cmd_file
   = (Some ''abc'',
      Some ([CHR ''['', DQUOTE] @ ''/bin/echo'' @ [DQUOTE, CHR '','', DQUOTE] @ ''hi''
            @ [DQUOTE, CHR '']'']), None)"
  by (simp add: example_cmd_file_def parse_cmd_file_def splitlines_def is_linebreak_def
      py_strip_def py_isspace_def startswith_def MAGIC_HEADER_def py_upper_def py_upper_char_def)

text \<open>
  C7, as the code has it. The agent is configured with secret \<open>s\<close> and has claimed and
  read (in text mode) a command file of the specified form: magic marker line, optional
  secret-token line, blank line, payload. The file carries no token, or a token (without
  a line boundary in it) that, once the white space around it is removed, is empty or
  differs from \<open>s\<close>. Then \<open>run_job\<close> is never called. If the payload is not blank, the
  published result has exit code 1 and stderr \<open>SECRET_TOKEN missing or invalid\<close>; if the
  payload is blank, the published result is the parse error with exit code -1, since
  parsing comes before the secret check.
\<close>

theorem secret_rejection:
  assumes "case token of
             None \<Rightarrow> True
           | Some t \<Rightarrow> list_all (\<lambda>c. \<not> is_linebreak c) t \<and> (py_strip t = [] \<or> py_strip t \<noteq> s)"
  shows "process_single (Some s) dry_run json_loads run_job True
           (Some (universal_newlines (spec_command_file token body))) now
         = Some (if list_all py_isspace body
                 then \<lparr>exitCode = - 1, stdout = [],
                       stderr = ''parse-error: no command payload found'', timestamp = now\<rparr>
                 else \<lparr>exitCode = 1, stdout = [],
                       stderr = ''SECRET_TOKEN missing or invalid'', timestamp = now\<rparr>,
                 None)"
proof -
  let ?file = "universal_newlines (spec_command_file token body)"
  have lb: "case token of None \<Rightarrow> True | Some t \<Rightarrow> list_all (\<lambda>c. \<not> is_linebreak c) t"
    using assms by (cases token) simp_all
  have p: "parse_cmd_file ?file
         = (map_option py_strip token,
            if list_all py_isspace body then None
            else Some (py_strip (str_join [LF] (splitlines_from [] (universal_newlines body)))),
            if list_all py_isspace body then Some ''no command payload found'' else None)"
    using lb by (rule parse_spec_command_file)
  have "fst (parse_cmd_file ?file) \<noteq> Some s \<or> s = []"
    using assms p by (cases token) auto
  from rejects_parsed_token [OF this, of dry_run json_loads run_job now]
  show ?thesis using p by simp
qed

text \<open>
  The theorem on the file of the specification's example, which carries the token \<open>abc\<close>,
  claimed by an agent whose secret is \<open>xyz\<close>.
\<close>

theorem secret_rejection_witness:
  "spec_command_file (Some ''abc'') example_payload = example_cmd_file
   \<and> list_all (\<lambda>c. \<not> is_linebreak c) ''abc'' \<and> py_strip ''abc'' \<noteq> ''xyz''
   \<and> \<not> list_all py_isspace example_payload
   \<and> process_single (Some ''xyz'') False example_json_loads (\<lambda>argv. (0, ''hi'' @ [LF], []))
         True (Some (universal_newlines example_cmd_file)) ''T''
       = Some (\<lparr>exitCode = 1, stdout = [], stderr = ''SECRET_TOKEN missing or invalid'',
                timestamp = ''T''\<rparr>, None)"
proof -
  have f: "spec_command_file (Some ''abc'') example_payload = example_cmd_file"
    by (simp add: spec_command_file_def example_cmd_file_def example_payload_def)
  have t: "list_all (\<lambda>c. \<not> is_linebreak c) ''abc''" "py_strip ''abc'' \<noteq> ''xyz''"
    by (simp_all add: is_linebreak_def py_strip_def py_isspace_def)
  have b: "\<not> list_all py_isspace example_payload"
    by (simp add: example_payload_def py_isspace_def)
  have h: "case Some ''abc'' of
             None \<Rightarrow> True
           | Some t \<Rightarrow> list_all (\<lambda>c. \<not> is_linebreak c) t
                       \<and> (py_strip t = [] \<or> py_strip t \<noteq> ''xyz'')"
    using t by simp
  from secret_rejection [OF h, of False example_json_loads "\<lambda>argv. (0, ''hi'' @ [LF], [])"
      example_payload "''T''"]
  show ?thesis using f t b by simp
qed

text \<open>
  C7 as stated fails on a claimed file that has the magic header and a wrong token but no
  payload: the agent publishes the parse error with exit code -1, not the rejection with
  exit code 1.
\<close>

theorem secret_rejection_counterexample:
  "spec_command_file (Some ''abc'') [] = ''#hybrid-mode'' @ [LF] @ ''SECRET_TOKEN: abc'' @ [LF, LF]
   \<and> process_single (Some ''xyz'') False example_json_loads (\<lambda>argv. (0, ''hi'' @ [LF], []))
         True (Some (universal_newlines (spec_command_file (Some ''abc'') []))) ''T''
       = Some (\<lparr>exitCode = - 1, stdout = [],
                stderr = ''parse-error: no command payload found'', timestamp = ''T''\<rparr>, None)"
  by (simp add: spec_command_file_def process_single_def parse_cmd_file_def splitlines_def
      is_linebreak_def py_strip_def py_isspace_def startswith_def MAGIC_HEADER_def
      str_truthy_def or_empty_def py_upper_def py_upper_char_def)

text \<open>
  It fails as well on a token that differs from the agent's secret only by white space
  around it: the file carries \<open> xyz\<close> (with a leading space), the agent's secret is
  \<open>xyz\<close>, and the command is run.
\<close>

lemma padded_token_is_run:
  "'' xyz'' \<noteq> ''xyz''
   \<and> process_single (Some ''xyz'') False example_json_loads (\<lambda>argv. (0, ''hi'' @ [LF], []))
         True (Some (universal_newlines (spec_command_file (Some '' xyz'') example_payload)))
         ''T''
       = Some (\<lparr>exitCode = 0, stdout = ''hi'' @ [LF], stderr = [], timestamp = ''T''\<rparr>,
               Some [''/bin/echo'', ''hi''])"
proof -
  have "parse_cmd_file (universal_newlines (spec_command_file (Some '' xyz'') example_payload))
        = (Some ''xyz'', Some example_payload, None)"
    by (simp add: spec_command_file_def example_payload_def parse_cmd_file_def splitlines_def
        is_linebreak_def py_strip_def py_isspace_def startswith_def MAGIC_HEADER_def
        py_upper_def py_upper_char_def)
  then show ?thesis
    by (simp add: process_single_def str_truthy_def or_empty_def build_command_def
        example_payload_def example_json_loads_def json_whitespace_def all_strings_def)
qed

text \<open>With the right secret the example file is run: the specification's round-trip example.\<close>

lemma example_cmd_file_runs:
  "process_single (Some ''abc'') False example_json_loads (\<lambda>argv. (0, ''hi'' @ [LF], []))
         True (Some example_cmd_file) ''T''
       = Some (\<lparr>exitCode = 0, stdout = ''hi'' @ [LF], stderr = [], timestamp = ''T''\<rparr>,
               Some [''/bin/echo'', ''hi''])"
  by (simp add: process_single_def example_cmd_file_parse str_truthy_def or_empty_def
      build_command_def example_json_loads_def json_whitespace_def all_strings_def)

section \<open>Claim C8: the timeout of the hybrid wait\<close>








text \<open>
  A result file that holds \<open>null\<close> decodes to \<open>None\<close>, which the worker cannot tell from
  the \<open>None\<close> of a wait that gave up: it reports the timeout.
\<close>

lemma null_result_reported_as_timeout:
  "hybrid_wait exact_floats ''job1'' ''hybrid-results''
        \<lparr>stop_set = (\<lambda>n. False), time_at = (\<lambda>n. real n),
         result_file = (\<lambda>n. Some (Inr JNull))\<rparr>
        0 (Some 1) (\<lambda>res. ([CompleteJob ''job1'' 0 True [] (Some res)], None))
      = Some ([AppendLogs ''job1'' [''[hybrid] waiting for result in hybrid-results''],
               AppendLogs ''job1'' [''[hybrid] timed out waiting for result''],
               CompleteJob ''job1'' 124 False ''[hybrid] timed out waiting for result'' None],
              None)"
proof -
  have "poll_loop \<lparr>stop_set = (\<lambda>n. False), time_at = (\<lambda>n. real n),
                    result_file = (\<lambda>n. Some (Inr JNull))\<rparr> (Finite 6) 0 = Some JNull"
    by (subst poll_loop.simps) (simp add: read_result_def)
  then show ?thesis
    by (simp add: hybrid_wait_def poll_for_result_def poll_deadline_def float_overflows_def
        effective_timeout_def float_deadline_def exact_floats_def)
qed

section \<open>Claim C9: reading the log\<close>

text \<open>
  C9 says that the log-tail read returns the last \<open>n\<close> entries for every count \<open>n\<close>.
  For \<open>n = 0\<close> the slice \<open>j["logs"][-0:]\<close> is the whole list: a job with two log
  entries returns both where the last zero entries are none.
\<close>

theorem get_job_logs_tail_zero:
  "get_job_logs ''job1'' 0
     (snd (worker_claim None \<lparr>cl_worker_id = ''A'', cl_runtime_pref = None\<rparr> None
        ''t1'' ''t2'' ''t3'' ''t4''
        (enqueue_job ''job1'' ''t0'' (example_request ''container'') [])))
   = Inr [''[t2] CLAIMED by worker A'', ''[t4] state=RUNNING: worker A started'']"
  by (simp add: get_job_logs_def py_slice_from_def worker_claim_def worker_start_def
      validate_worker_secret_def atomically_claim_oldest_def enqueue_job_def str_truthy_def
      claimed_by_def or_empty_def example_request_def)

text \<open>
  For a positive count the read returns the last \<open>n\<close> entries (all of them when there
  are fewer), and the details read returns the last 1000. Both are functions of the store
  that return no store: they cannot remove an entry.
\<close>

lemma py_slice_last_n:
  assumes "0 < n"
  shows "py_slice_from (- n) xs = drop (length xs - nat n) xs"
proof -
  have "nat (max (int (length xs) + - n) 0) = length xs - nat n" using assms by arith
  then show ?thesis using assms by (simp add: py_slice_from_def Let_def)
qed

lemma get_job_logs_tail:
  "0 < n \<Longrightarrow> map_of JOBS jid = Some j \<Longrightarrow>
   get_job_logs jid n JOBS = Inr (drop (length (logs j) - nat n) (logs j))"
  by (simp add: get_job_logs_def py_slice_last_n)

lemma get_job_cap:
  "map_of JOBS jid = Some j \<Longrightarrow>
   get_job jid JOBS = Inr (j\<lparr>logs := drop (length (logs j) - 1000) (logs j)\<rparr>)"
  using py_slice_last_n [of 1000 "logs j"] by (simp add: get_job_def)

section \<open>Claim C10: worker-secret validation\<close>

text \<open>
  C10. Worker-secret validation accepts every request whenever the configured secret is
  unset or the empty string. When a non-empty secret is configured, a request without the
  header is treated as carrying the empty string, and a request is accepted exactly when
  the string it carries equals the configured secret (so a request without the header is
  never accepted then).
\<close>

theorem validate_worker_secret_spec:
  "validate_worker_secret None provided
   \<and> validate_worker_secret (Some []) provided
   \<and> (validate_worker_secret (Some (c # cs)) None
        = validate_worker_secret (Some (c # cs)) (Some []))
   \<and> \<not> validate_worker_secret (Some (c # cs)) None
   \<and> (validate_worker_secret (Some (c # cs)) (Some p) = (p = c # cs))"
  by (simp add: validate_worker_secret_def str_truthy_def or_empty_def)

end
